theory Spec2Isabelle
  imports Main "HOL-Library.Word" "HOL-Library.Sublist"
begin

section \<open>WebRadioMonitor: ICY metadata polling (index.py)\<close>

text \<open>
  The monitor opens an audio stream, scans the first metadata windows of the
  body for a \<^verbatim>\<open>StreamTitle=\<close> field, splits the title into artist and track,
  and submits a track that differs from the last one submitted.

  Python values are modelled as follows: \<^verbatim>\<open>bytes\<close> is a list of 8-bit words,
  \<^verbatim>\<open>str\<close> is a list of Unicode code points, \<^verbatim>\<open>int\<close> is \<open>int\<close>, the
  two-key result dictionary is a record, \<^verbatim>\<open>None\<close> is \<open>None\<close>, and an
  exception is the left injection of a sum. The two calls that leave the
  program, \<^verbatim>\<open>requests.get\<close> and \<^verbatim>\<open>requests.post\<close>, are inputs: the model is
  given what they produced. The reads from the open response are calls into
  urllib3; the model takes them as a parameter.
\<close>

subsection \<open>Python values\<close>

type_synonym byte = "8 word"
type_synonym pystr = "nat list"

text \<open>
  The exceptions of the calls below. Each of them is an \<^verbatim>\<open>Exception\<close>, which
  the handlers of \<^verbatim>\<open>fetch_metadata\<close> and \<^verbatim>\<open>submit_to_listenbrainz\<close> catch.
\<close>

datatype exn =
  RequestException | ValueError | IndexError | TypeError | OverflowError | MemoryError
  | ProtocolError | ReadTimeoutError

text \<open>A string literal of the source: the code points of its ASCII characters.\<close>

definition ascii :: "string \<Rightarrow> pystr" where
  "ascii s = map of_char s"

text \<open>
  A header value. The header lines of a response are decoded as ISO-8859-1,
  one character per byte, so a header value is a \<open>string\<close> of the logic, whose
  characters are the 256 byte values; as a Python string it has these code
  points.
\<close>

definition latin1 :: "string \<Rightarrow> pystr" where
  "latin1 s = map of_char s"

text \<open>A bytes literal: the bytes of its ASCII characters.\<close>

definition ascii_bytes :: "string \<Rightarrow> byte list" where
  "ascii_bytes s = map of_char s"

subsection \<open>The string methods the source calls\<close>

text \<open>\<^verbatim>\<open>sub in s\<close>: \<open>sub\<close> occurs in \<open>s\<close> as a contiguous run.\<close>

fun py_in :: "'a list \<Rightarrow> 'a list \<Rightarrow> bool" where
  "py_in sub [] = (sub = [])"
| "py_in sub (c # cs) = (prefix sub (c # cs) \<or> py_in sub cs)"

text \<open>
  The leftmost occurrence of \<open>sep\<close> in \<open>s\<close>: the text before it and the text
  after it, or \<open>None\<close> when \<open>sep\<close> does not occur.
\<close>

fun py_find :: "'a list \<Rightarrow> 'a list \<Rightarrow> ('a list \<times> 'a list) option" where
  "py_find sep [] = (if sep = [] then Some ([], []) else None)"
| "py_find sep (c # cs) =
     (if prefix sep (c # cs) then Some ([], drop (length sep) (c # cs))
      else (case py_find sep cs of
              None \<Rightarrow> None
            | Some (a, b) \<Rightarrow> Some (c # a, b)))"

text \<open>
  \<^verbatim>\<open>s.split(sep, maxsplit)\<close>: cut \<open>s\<close> at the occurrences of \<open>sep\<close>, from the
  left, at most \<open>maxsplit\<close> times; a negative \<open>maxsplit\<close> (Python's default is
  \<open>-1\<close>) means no limit. Python raises ValueError for an empty separator; the
  source passes non-empty literals only, and the model returns \<open>[s]\<close> there.
\<close>

function py_split :: "'a list \<Rightarrow> int \<Rightarrow> 'a list \<Rightarrow> 'a list list" where
  "py_split sep maxsplit s =
     (if maxsplit = 0 \<or> sep = [] then [s]
      else (case py_find sep s of
              None \<Rightarrow> [s]
            | Some (a, b) \<Rightarrow> a # py_split sep (maxsplit - 1) b))"
  by pat_completeness auto
termination
proof (relation "measure (\<lambda>(sep, maxsplit, s). length s)")
  show "wf (measure (\<lambda>(sep :: 'a list, maxsplit :: int, s :: 'a list). length s))"
    by simp
next
  fix sep :: "'a list" and maxsplit :: int and s x2 a b
  assume guard: "\<not> (maxsplit = 0 \<or> sep = [])"
    and found: "py_find sep s = Some x2" and pair: "(a, b) = x2"
  have shorter: "py_find sep t = Some (u, b) \<Longrightarrow> length b < length t" for t u
  proof (induction t arbitrary: u)
    case Nil
    with guard show ?case by simp
  next
    case (Cons c cs)
    show ?case
    proof (cases "prefix sep (c # cs)")
      case True
      with Cons.prems guard show ?thesis by (cases sep) auto
    next
      case False
      with Cons.prems obtain u' where "py_find sep cs = Some (u', b)"
        by (auto split: option.splits)
      from Cons.IH [OF this] show ?thesis by simp
    qed
  qed
  from found pair have "py_find sep s = Some (a, b)" by simp
  from shorter [OF this]
  show "((sep, maxsplit - 1, b), (sep, maxsplit, s)) \<in> measure (\<lambda>(sep, maxsplit, s). length s)"
    by simp
qed

text \<open>\<^verbatim>\<open>s.strip(chars)\<close>: drop the leading and trailing characters that are in \<open>chars\<close>.\<close>

definition py_strip_chars :: "'a list \<Rightarrow> 'a list \<Rightarrow> 'a list" where
  "py_strip_chars chars s =
     rev (dropWhile (\<lambda>c. c \<in> set chars) (rev (dropWhile (\<lambda>c. c \<in> set chars) s)))"

text \<open>
  The code points \<^verbatim>\<open>str.isspace\<close> accepts: the ASCII ones (tab to carriage
  return, the four separators 28 to 31, space) and the Unicode white space
  beyond ASCII.
\<close>

definition is_space :: "nat \<Rightarrow> bool" where
  "is_space c =
     ((9 \<le> c \<and> c \<le> 13) \<or> (28 \<le> c \<and> c \<le> 32) \<or> c = 0x85 \<or> c = 0xA0 \<or> c = 0x1680
      \<or> (0x2000 \<le> c \<and> c \<le> 0x200A) \<or> c = 0x2028 \<or> c = 0x2029 \<or> c = 0x202F
      \<or> c = 0x205F \<or> c = 0x3000)"

text \<open>\<^verbatim>\<open>s.strip()\<close>: drop leading and trailing white space.\<close>

definition py_strip :: "pystr \<Rightarrow> pystr" where
  "py_strip s = rev (dropWhile is_space (rev (dropWhile is_space s)))"

text \<open>
  \<^verbatim>\<open>int(s)\<close> on a header value, base ten. White space around the number is
  skipped, one sign is allowed, the digits may be grouped by single
  underscores, and more than 4300 digits are refused; anything else is a
  ValueError as well. The white space of \<^verbatim>\<open>int\<close> is not that of
  \<^verbatim>\<open>str.strip\<close>: among the ASCII characters it is tab to carriage return and
  the space only, so the separators 28 to 31 are not skipped; beyond ASCII it
  is the Unicode white space, of which a header value can hold U+0085 and
  U+00A0. In a header value the decimal digits are the ASCII ones.
\<close>

definition is_digit :: "nat \<Rightarrow> bool" where
  "is_digit c = (48 \<le> c \<and> c \<le> 57)"

definition int_space :: "nat \<Rightarrow> bool" where
  "int_space c = ((9 \<le> c \<and> c \<le> 13) \<or> c = 32 \<or> (127 \<le> c \<and> is_space c))"

fun int_digits :: "nat \<Rightarrow> pystr \<Rightarrow> exn + nat" where
  "int_digits acc [] = Inr acc"
| "int_digits acc (c # cs) =
     (if is_digit c then int_digits (acc * 10 + (c - 48)) cs
      else if c = 95 then
        (case cs of
           [] \<Rightarrow> Inl ValueError
         | d # ds \<Rightarrow>
             if is_digit d then int_digits (acc * 10 + (d - 48)) ds else Inl ValueError)
      else Inl ValueError)"

definition py_int :: "string \<Rightarrow> exn + int" where
  "py_int s =
     (let t = rev (dropWhile int_space (rev (dropWhile int_space (latin1 s))));
          negative = (case t of [] \<Rightarrow> False | c # cs \<Rightarrow> c = 45);
          u = (case t of [] \<Rightarrow> [] | c # cs \<Rightarrow> if c = 45 \<or> c = 43 then cs else t)
      in case u of
           [] \<Rightarrow> Inl ValueError
         | c # cs \<Rightarrow>
             if is_digit c then
               (case int_digits (c - 48) cs of
                  Inl e \<Rightarrow> Inl e
                | Inr n \<Rightarrow>
                    if 4300 < length (filter is_digit u) then Inl ValueError
                    else Inr (if negative then - int n else int n))
             else Inl ValueError)"

text \<open>\<^verbatim>\<open>ord(b)\<close> on a bytes object: its single byte, a TypeError for any other length.\<close>

definition ord :: "byte list \<Rightarrow> exn + int" where
  "ord b = (case b of [x] \<Rightarrow> Inr (uint x) | _ \<Rightarrow> Inl TypeError)"

subsection \<open>Decoding bytes as UTF-8, errors ignored\<close>

text \<open>
  \<^verbatim>\<open>data.decode('utf-8', errors='ignore')\<close>. The decoder reads one character
  at a time: a byte below 0x80 is itself; a lead byte 0xC2..0xDF, 0xE0..0xEF
  or 0xF0..0xF4 takes one, two or three continuation bytes (0x80..0xBF), where
  the second byte must also exclude over-long forms, surrogates and code
  points beyond 0x10FFFF. With \<^verbatim>\<open>errors='ignore'\<close> an ill-formed sequence is
  skipped and produces nothing: one byte for a bad lead byte or a bad second
  byte, the bytes read so far for a bad third or fourth byte, and everything
  that is left when the data ends inside a character.
\<close>

definition is_continuation :: "byte \<Rightarrow> bool" where
  "is_continuation b = (0x80 \<le> b \<and> b < 0xC0)"

fun utf8_decode_ignore :: "byte list \<Rightarrow> pystr" where
  "utf8_decode_ignore [] = []"
| "utf8_decode_ignore (ch # s) =
     (if ch < 0x80 then unat ch # utf8_decode_ignore s
      else if ch < 0xE0 then
        (if ch < 0xC2 then utf8_decode_ignore s
         else (case s of
                 [] \<Rightarrow> []
               | ch2 # s2 \<Rightarrow>
                   if \<not> is_continuation ch2 then utf8_decode_ignore s
                   else (unat ch * 64 + unat ch2 - (0xC0 * 64 + 0x80))
                          # utf8_decode_ignore s2))
      else if ch < 0xF0 then
        (case s of
           [] \<Rightarrow> []
         | ch2 # s2 \<Rightarrow>
             if \<not> is_continuation ch2 \<or> (if ch2 < 0xA0 then ch = 0xE0 else ch = 0xED)
             then utf8_decode_ignore s
             else (case s2 of
                     [] \<Rightarrow> []
                   | ch3 # s3 \<Rightarrow>
                       if \<not> is_continuation ch3 then utf8_decode_ignore s2
                       else (unat ch * 4096 + unat ch2 * 64 + unat ch3
                               - (0xE0 * 4096 + 0x80 * 64 + 0x80))
                              # utf8_decode_ignore s3))
      else if ch < 0xF5 then
        (case s of
           [] \<Rightarrow> []
         | ch2 # s2 \<Rightarrow>
             if \<not> is_continuation ch2 \<or> (if ch2 < 0x90 then ch = 0xF0 else ch = 0xF4)
             then utf8_decode_ignore s
             else (case s2 of
                     [] \<Rightarrow> []
                   | ch3 # s3 \<Rightarrow>
                       if \<not> is_continuation ch3 then utf8_decode_ignore s2
                       else (case s3 of
                               [] \<Rightarrow> []
                             | ch4 # s4 \<Rightarrow>
                                 if \<not> is_continuation ch4 then utf8_decode_ignore s3
                                 else (unat ch * 262144 + unat ch2 * 4096 + unat ch3 * 64
                                         + unat ch4
                                         - (0xF0 * 262144 + 0x80 * 4096 + 0x80 * 64 + 0x80))
                                        # utf8_decode_ignore s4)))
      else utf8_decode_ignore s)"

text \<open>
  \<^verbatim>\<open>text.encode('utf-8')\<close>, the direction in which a server (or a test that
  builds a synthetic stream) turns the metadata text into bytes. The monitor
  itself never encodes; the encoder is here to say which bytes a text
  arrives as. It is defined on the Unicode scalar values: the code points up
  to 0x10FFFF that are not surrogates.
\<close>

definition is_scalar :: "nat \<Rightarrow> bool" where
  "is_scalar c = (c < 0xD800 \<or> (0xE000 \<le> c \<and> c < 0x110000))"

definition utf8_encode_char :: "nat \<Rightarrow> byte list" where
  "utf8_encode_char c =
     (if c < 0x80 then [of_nat c]
      else if c < 0x800 then [of_nat (0xC0 + c div 64), of_nat (0x80 + c mod 64)]
      else if c < 0x10000 then
        [of_nat (0xE0 + c div 4096), of_nat (0x80 + c div 64 mod 64), of_nat (0x80 + c mod 64)]
      else
        [of_nat (0xF0 + c div 262144), of_nat (0x80 + c div 4096 mod 64),
         of_nat (0x80 + c div 64 mod 64), of_nat (0x80 + c mod 64)])"

definition utf8_encode :: "pystr \<Rightarrow> byte list" where
  "utf8_encode s = concat (map utf8_encode_char s)"

subsection \<open>The response and its body\<close>

text \<open>
  What \<^verbatim>\<open>requests.get\<close> returns: the headers (requests looks header names up
  without regard to case, so the map is keyed by the lower-case name) and
  \<^verbatim>\<open>response.raw\<close>, the open body, whose state every read changes.
\<close>

record 's response =
  headers :: "string \<rightharpoonup> string"
  raw :: 's

text \<open>
  \<^verbatim>\<open>response.raw.read(amt)\<close> is code of urllib3 and of the connection behind
  it, not of this program. Whether a read returns all the bytes asked for,
  fewer of them, or raises (a timeout, urllib3's ProtocolError when the
  connection drops before the announced Content-Length is met, an
  OverflowError or MemoryError for an amount that is too large) is decided
  there. So the functions below take the read as a parameter: a reader maps
  the amount asked for and the state of the body to what the call produced,
  the bytes returned or the exception raised, and to the state afterwards.
\<close>

type_synonym 's reader = "int \<Rightarrow> 's \<Rightarrow> (exn + byte list) \<times> 's"

text \<open>
  One reader in full: \<^verbatim>\<open>io.BytesIO.read\<close>, over a body held in memory; a
  synthetic stream built from bytes is read this way. It returns the next
  \<open>amt\<close> bytes, or all that is left when the body ends first (a short read,
  which raises nothing); everything that is left for a negative amount; and
  it raises OverflowError for an amount that does not fit a signed 64-bit
  size.
\<close>

definition bytesio_read :: "byte list reader" where
  "bytesio_read amt body =
     (if 2 ^ 63 \<le> amt \<or> amt < - (2 ^ 63) then (Inl OverflowError, body)
      else if amt < 0 then (Inr body, [])
      else (Inr (take (nat amt) body), drop (nat amt) body))"


subsection \<open>fetch\_metadata\<close>

record track_info =
  artist :: pystr
  track :: pystr

text \<open>
  Lines 45 to 50, one metadata window: skip \<open>metaint\<close> audio bytes, read the
  length byte, and when there is one and it is not zero, read sixteen times
  as many bytes and decode them. The result is the decoded text when line 50
  ran, \<open>None\<close> when it did not, or the exception that a read or \<^verbatim>\<open>ord\<close>
  raised; with the state of the body afterwards. What the first read
  returned is not looked at.
\<close>

definition read_block :: "'s reader \<Rightarrow> int \<Rightarrow> 's \<Rightarrow> (exn + pystr option) \<times> 's" where
  "read_block read metaint s =
     (case read metaint s of
        (Inl e, s1) \<Rightarrow> (Inl e, s1)
      | (Inr audio, s1) \<Rightarrow>
          (case read 1 s1 of
             (Inl e, s2) \<Rightarrow> (Inl e, s2)
           | (Inr len_byte, s2) \<Rightarrow>
               if len_byte \<noteq> [] then
                 (case ord len_byte of
                    Inl e \<Rightarrow> (Inl e, s2)
                  | Inr n \<Rightarrow>
                      (let len = n * 16
                       in if len > 0 then
                            (case read len s2 of
                               (Inl e, s3) \<Rightarrow> (Inl e, s3)
                             | (Inr data, s3) \<Rightarrow>
                                 (Inr (Some (utf8_decode_ignore data)), s3))
                          else (Inr None, s2)))
               else (Inr None, s2)))"

text \<open>
  Line 53: \<^verbatim>\<open>metadata.split('StreamTitle=')[1].split(';')[0].strip("'")\<close>. An
  index out of range is an IndexError.
\<close>

definition extract_title :: "pystr \<Rightarrow> exn + pystr" where
  "extract_title metadata =
     (case py_split (ascii ''StreamTitle='') (- 1) metadata of
        before # field # others \<Rightarrow>
          (case py_split (ascii '';'') (- 1) field of
             [] \<Rightarrow> Inl IndexError
           | v # vs \<Rightarrow> Inr (py_strip_chars (ascii [CHR 0x27]) v))
      | _ \<Rightarrow> Inl IndexError)"

text \<open>
  Lines 54 to 64. Unpacking \<^verbatim>\<open>artist, track = title.split(' - ', 1)\<close> is a
  ValueError unless the split has exactly two parts.
\<close>

definition split_title :: "pystr \<Rightarrow> exn + track_info" where
  "split_title title =
     (if py_in (ascii '' - '') title then
        (case py_split (ascii '' - '') 1 title of
           [a, t] \<Rightarrow> Inr \<lparr>artist = py_strip a, track = py_strip t\<rparr>
         | _ \<Rightarrow> Inl ValueError)
      else Inr \<lparr>artist = ascii ''Unknown Artist'', track = py_strip title\<rparr>)"

text \<open>
  Lines 51 to 64, what the loop body does with a decoded block: \<open>Some\<close> is
  the dictionary of a \<^verbatim>\<open>return\<close>, \<open>None\<close> means that no branch returned and
  the loop goes on.
\<close>

definition normalize :: "pystr \<Rightarrow> exn + track_info option" where
  "normalize metadata =
     (if metadata \<noteq> [] then
        (if py_in (ascii ''StreamTitle='') metadata then
           (case extract_title metadata of
              Inl e \<Rightarrow> Inl e
            | Inr title \<Rightarrow>
                (case split_title title of
                   Inl e \<Rightarrow> Inl e
                 | Inr t \<Rightarrow> Inr (Some t)))
         else Inr None)
      else Inr None)"

text \<open>
  Lines 44 to 64, \<^verbatim>\<open>for _ in range(10)\<close> with the number of iterations left
  as the second argument. The result is the returned dictionary, \<open>None\<close>
  when the loop ran out, or the exception that left it; and the state of the
  body afterwards.
\<close>

fun scan :: "'s reader \<Rightarrow> nat \<Rightarrow> int \<Rightarrow> 's \<Rightarrow> (exn + track_info option) \<times> 's" where
  "scan read 0 metaint s = (Inr None, s)"
| "scan read (Suc n) metaint s =
     (case read_block read metaint s of
        (Inl e, s') \<Rightarrow> (Inl e, s')
      | (Inr None, s') \<Rightarrow> scan read n metaint s'
      | (Inr (Some metadata), s') \<Rightarrow>
          (case normalize metadata of
             Inl e \<Rightarrow> (Inl e, s')
           | Inr (Some t) \<Rightarrow> (Inr (Some t), s')
           | Inr None \<Rightarrow> scan read n metaint s'))"

text \<open>Lines 66 to 73: the station name as artist, or nothing.\<close>

definition header_fallback :: "'s response \<Rightarrow> track_info option" where
  "header_fallback r =
     (if headers r ''icy-name'' \<noteq> None then
        Some \<lparr>artist = (case headers r ''icy-name'' of
                          Some name \<Rightarrow> latin1 name
                        | None \<Rightarrow> ascii ''Unknown Station''),
              track = ascii ''Current Track''\<rparr>
      else None)"

text \<open>
  \<^verbatim>\<open>fetch_metadata\<close>, given what \<^verbatim>\<open>requests.get\<close> produced: an exception or
  a response. Every exception inside the \<^verbatim>\<open>try\<close> ends in \<^verbatim>\<open>return None\<close>.
\<close>

definition fetch_metadata :: "'s reader \<Rightarrow> exn + 's response \<Rightarrow> track_info option" where
  "fetch_metadata read got =
     (case got of
        Inl e \<Rightarrow> None
      | Inr r \<Rightarrow>
          (case headers r ''icy-metaint'' of
             None \<Rightarrow> header_fallback r
           | Some v \<Rightarrow>
               (case py_int v of
                  Inl e \<Rightarrow> None
                | Inr metaint \<Rightarrow>
                    (case fst (scan read 10 metaint (raw r)) of
                       Inl e \<Rightarrow> None
                     | Inr (Some t) \<Rightarrow> Some t
                     | Inr None \<Rightarrow> header_fallback r))))"

subsection \<open>submit\_to\_listenbrainz and run\<close>

text \<open>
  \<^verbatim>\<open>submit_to_listenbrainz\<close>, given what \<^verbatim>\<open>requests.post\<close> produced: an
  exception or a status code. The dictionary passed in is never empty and its
  two values are strings, so the two early returns do not apply.
\<close>

definition submit_to_listenbrainz :: "exn + nat \<Rightarrow> track_info \<Rightarrow> bool" where
  "submit_to_listenbrainz posted metadata =
     (case posted of
        Inl e \<Rightarrow> False
      | Inr status_code \<Rightarrow> (if status_code \<noteq> 200 then False else True))"

text \<open>
  Of the attributes of \<^verbatim>\<open>WebRadioMonitor\<close> only \<^verbatim>\<open>last_track\<close> ever changes;
  the URL, the token, the request headers and the logger are fixed at
  construction and have no part in what follows.
\<close>

record monitor =
  last_track :: "track_info option"

text \<open>
  Lines 138 to 144, the body of the loop after the fetch. The second
  component is the track handed to \<^verbatim>\<open>submit_to_listenbrainz\<close> in this cycle,
  \<open>None\<close> when it was not called.
\<close>

definition observe :: "track_info option \<Rightarrow> exn + nat \<Rightarrow> monitor \<Rightarrow> monitor \<times> track_info option" where
  "observe metadata posted self =
     (case metadata of
        None \<Rightarrow> (self, None)
      | Some m \<Rightarrow>
          if Some m \<noteq> last_track self then
            (if submit_to_listenbrainz posted m then (self\<lparr>last_track := Some m\<rparr>, Some m)
             else (self, Some m))
          else (self, None))"

text \<open>
  \<^verbatim>\<open>run\<close>: the loop never ends, so the model runs it over the finite list
  of what the two requests of each cycle produced, and collects the track
  submitted in each cycle.
\<close>

fun run :: "'s reader \<Rightarrow> ((exn + 's response) \<times> (exn + nat)) list \<Rightarrow> monitor
    \<Rightarrow> monitor \<times> track_info option list" where
  "run read [] self = (self, [])"
| "run read ((got, posted) # cycles) self =
     (let (self', submitted) = observe (fetch_metadata read got) posted self;
          (self'', rest) = run read cycles self'
      in (self'', submitted # rest))"

section \<open>Properties\<close>

text \<open>
  The equations of \<open>py_split\<close> are applied by hand, so that the simplifier
  does not unfold them under unknown arguments.
\<close>

declare py_split.simps [simp del]

lemmas eval_defs = normalize_def extract_title_def split_title_def ascii_def ascii_bytes_def
  py_split.simps py_strip_def py_strip_chars_def is_space_def py_int_def is_digit_def
  int_space_def latin1_def

subsection \<open>The length byte\<close>

lemma ord_single: "ord [x] = Inr (uint x)"
  by (simp add: ord_def)

subsection \<open>Searching, splitting and stripping\<close>

lemma py_in_iff: "py_in sub s \<longleftrightarrow> (\<exists>a b. s = a @ sub @ b)"
proof -
  have "py_in sub s \<longleftrightarrow> sublist sub s"
    by (induction s) (auto simp: sublist_Cons_right)
  then show ?thesis by (simp add: sublist_def)
qed

lemma py_find_None_iff: "py_find sep s = None \<longleftrightarrow> \<not> py_in sep s"
  by (induction s) (auto split: option.splits)

lemma py_find_Some_decomp: "py_find sep s = Some (a, b) \<Longrightarrow> s = a @ sep @ b"
proof (induction s arbitrary: a)
  case Nil
  then show ?case by (simp split: if_splits)
next
  case (Cons c cs)
  show ?case
  proof (cases "prefix sep (c # cs)")
    case True
    then obtain r where r: "c # cs = sep @ r" by (auto simp: prefix_def)
    from True Cons.prems have "a = []" and "b = drop (length sep) (c # cs)" by simp_all
    with r show ?thesis by simp
  next
    case False
    with Cons.prems obtain a' where a': "py_find sep cs = Some (a', b)" "a = c # a'"
      by (auto split: option.splits)
    from Cons.IH [OF a'(1)] a'(2) show ?thesis by simp
  qed
qed

lemma py_find_leftmost:
  "sep \<noteq> [] \<Longrightarrow> \<not> py_in sep (a @ butlast sep) \<Longrightarrow> py_find sep (a @ sep @ b) = Some (a, b)"
proof (induction a)
  case Nil
  then obtain c cs where "sep = c # cs" by (cases sep) auto
  then show ?case by simp
next
  case (Cons x a)
  from Cons.prems(2) have no: "\<not> prefix sep (x # a @ butlast sep)"
    and rest: "\<not> py_in sep (a @ butlast sep)" by simp_all
  have "\<not> prefix sep (x # a @ sep @ b)"
  proof
    assume p: "prefix sep (x # a @ sep @ b)"
    have q: "prefix (x # a @ butlast sep) (x # a @ sep @ b)"
      using Cons.prems(1) by (simp add: prefix_def) (metis append_butlast_last_id append_assoc)
    have "length sep \<le> length (x # a @ butlast sep)"
      using Cons.prems(1) by (cases sep) auto
    from prefix_length_prefix [OF p q this] no show False by simp
  qed
  with Cons.IH [OF Cons.prems(1) rest] show ?case by simp
qed

lemma leftmost_no_earlier:
  assumes "sep \<noteq> []"
    and first: "\<forall>a' b'. a @ sep @ b = a' @ sep @ b' \<longrightarrow> length a \<le> length a'"
  shows "\<not> py_in sep (a @ butlast sep)"
proof
  assume "py_in sep (a @ butlast sep)"
  then obtain p q where pq: "a @ butlast sep = p @ sep @ q"
    by (auto simp: py_in_iff)
  have "a @ sep @ b = (a @ butlast sep) @ [last sep] @ b"
    using assms(1) by simp
  also have "\<dots> = p @ sep @ (q @ [last sep] @ b)"
    by (simp add: pq)
  finally have "length a \<le> length p" using first by blast
  moreover from pq have "length a + length (butlast sep) = length p + length sep + length q"
    by (metis length_append add.assoc)
  ultimately show False using assms(1) by (cases sep) (auto split: if_splits)
qed

lemma py_split_nonempty: "py_split sep k s \<noteq> []"
  by (subst py_split.simps) (auto split: option.splits)

lemma py_split_once:
  "sep \<noteq> [] \<Longrightarrow> py_find sep s = Some (a, b) \<Longrightarrow> py_split sep 1 s = [a, b]"
  by (simp add: py_split.simps [of sep 1 s] py_split.simps [of sep 0 b])

lemma py_strip_trims:
  "\<exists>l r. s = l @ py_strip s @ r \<and> (\<forall>c \<in> set l. is_space c) \<and> (\<forall>c \<in> set r. is_space c)
     \<and> (py_strip s = [] \<or> (\<not> is_space (hd (py_strip s)) \<and> \<not> is_space (last (py_strip s))))"
proof -
  define d where "d = dropWhile is_space s"
  define t where "t = rev (dropWhile is_space (rev d))"
  define r where "r = rev (takeWhile is_space (rev d))"
  have t: "py_strip s = t" by (simp add: py_strip_def t_def d_def)
  have d: "d = t @ r"
  proof -
    have "t @ r = rev (takeWhile is_space (rev d) @ dropWhile is_space (rev d))"
      by (simp only: t_def r_def rev_append)
    also have "\<dots> = d"
      by (simp only: takeWhile_dropWhile_id rev_rev_ident)
    finally show ?thesis by simp
  qed
  have s: "s = takeWhile is_space s @ t @ r"
  proof -
    have "takeWhile is_space s @ t @ r = takeWhile is_space s @ d"
      by (simp only: d)
    also have "\<dots> = s"
      by (simp only: d_def takeWhile_dropWhile_id)
    finally show ?thesis by (rule sym)
  qed
  have l: "\<forall>c \<in> set (takeWhile is_space s). is_space c"
    by (auto dest: set_takeWhileD)
  have r: "\<forall>c \<in> set r. is_space c"
    by (auto simp: r_def dest: set_takeWhileD)
  have ends: "\<not> is_space (hd t) \<and> \<not> is_space (last t)" if "t \<noteq> []"
  proof -
    from that have ne: "dropWhile is_space (rev d) \<noteq> []" by (simp add: t_def)
    then have "\<not> is_space (hd (dropWhile is_space (rev d)))" by (rule hd_dropWhile)
    then have last: "\<not> is_space (last t)" using ne by (simp add: t_def last_rev)
    from that have "d \<noteq> []" by (simp add: d)
    then have "\<not> is_space (hd d)" unfolding d_def by (rule hd_dropWhile)
    moreover have "hd d = hd t" using that by (subst d) simp
    ultimately have "\<not> is_space (hd t)" by simp
    with last show ?thesis by simp
  qed
  show ?thesis
  proof (intro exI conjI)
    show "s = takeWhile is_space s @ py_strip s @ r" using s by (simp only: t)
    show "\<forall>c \<in> set (takeWhile is_space s). is_space c" by (rule l)
    show "\<forall>c \<in> set r. is_space c" by (rule r)
    show "py_strip s = [] \<or> (\<not> is_space (hd (py_strip s)) \<and> \<not> is_space (last (py_strip s)))"
      using ends by (auto simp only: t)
  qed
qed

lemma marker_nonempty: "ascii ''StreamTitle='' \<noteq> []"
  by (simp add: ascii_def)

subsection \<open>Normalising a block raises nothing\<close>

lemma split_title_found:
  "py_find (ascii '' - '') title = Some (a, b) \<Longrightarrow>
   split_title title = Inr \<lparr>artist = py_strip a, track = py_strip b\<rparr>"
proof -
  assume f: "py_find (ascii '' - '') title = Some (a, b)"
  have ne: "ascii '' - '' \<noteq> []" by (simp add: ascii_def)
  from f have "py_in (ascii '' - '') title"
    using py_find_None_iff [of "ascii '' - ''" title] by simp
  with py_split_once [OF ne f] show ?thesis by (simp add: split_title_def)
qed

lemma split_title_total: "\<exists>t. split_title title = Inr t"
proof (cases "py_find (ascii '' - '') title")
  case None
  then show ?thesis by (simp add: split_title_def py_find_None_iff)
next
  case (Some p)
  then show ?thesis by (cases p) (auto dest: split_title_found)
qed

lemma extract_title_total:
  assumes "py_in (ascii ''StreamTitle='') metadata"
  shows "\<exists>t. extract_title metadata = Inr t"
proof -
  have ne: "ascii ''StreamTitle='' \<noteq> []" by (simp add: ascii_def)
  from assms obtain a b where f: "py_find (ascii ''StreamTitle='') metadata = Some (a, b)"
    using py_find_None_iff [of "ascii ''StreamTitle=''" metadata] by auto
  obtain field others where fo: "py_split (ascii ''StreamTitle='') (- 2) b = field # others"
    using py_split_nonempty [of "ascii ''StreamTitle=''" "- 2" b] by (auto simp: neq_Nil_conv)
  obtain v vs where "py_split (ascii '';'') (- 1) field = v # vs"
    using py_split_nonempty [of "ascii '';''" "- 1" field] by (auto simp: neq_Nil_conv)
  with f fo ne show ?thesis
    by (simp add: extract_title_def py_split.simps [of "ascii ''StreamTitle=''" "- 1" metadata])
qed


lemma normalize_marker:
  assumes "py_in (ascii ''StreamTitle='') metadata"
  shows "\<exists>t. normalize metadata = Inr (Some t)"
proof -
  from assms marker_nonempty have ne: "metadata \<noteq> []" by (cases metadata) auto
  obtain title where t: "extract_title metadata = Inr title"
    using extract_title_total [OF assms] by blast
  obtain ti where "split_title title = Inr ti" using split_title_total by blast
  with assms ne t show ?thesis by (simp add: normalize_def)
qed

subsection \<open>One window\<close>

lemma uint_pos: "0 < uint x \<longleftrightarrow> x \<noteq> 0" for x :: byte
  by (simp add: word_neq_0_conv word_less_def)

lemma uint_byte_small: "\<not> (2 ^ 63 \<le> uint x * 16 \<or> uint x * 16 < - (2 ^ 63))" for x :: byte
proof -
  have "uint x < 256" using uint_bounded [of x] by simp
  then show ?thesis using uint_ge_0 [of x] by (simp del: uint_ge_0; arith)
qed

lemma read_block_window:
  assumes "read metaint s = (Inr audio, s1)" and "read 1 s1 = (Inr [lb], s2)" and "0 < lb"
    and "read (uint lb * 16) s2 = (Inr bytes, s3)"
  shows "read_block read metaint s = (Inr (Some (utf8_decode_ignore bytes)), s3)"
proof -
  from assms(3) have "0 < uint lb" by (simp add: word_less_def)
  with assms(1,2,4) show ?thesis by (simp add: read_block_def ord_single)
qed

lemma read_block_zero:
  assumes "read metaint s = (Inr audio, s1)" and "read 1 s1 = (Inr [0], s2)"
  shows "read_block read metaint s = (Inr None, s2)"
  using assms by (simp add: read_block_def ord_single)

lemma read_block_no_length:
  assumes "read metaint s = (Inr audio, s1)" and "read 1 s1 = (Inr [], s2)"
  shows "read_block read metaint s = (Inr None, s2)"
  using assms by (simp add: read_block_def)

lemma read_block_raises:
  "fst (read_block read metaint s) = Inl e \<longleftrightarrow>
     fst (read metaint s) = Inl e
   \<or> (\<exists>audio. fst (read metaint s) = Inr audio
         \<and> fst (read 1 (snd (read metaint s))) = Inl e)
   \<or> (\<exists>audio bs. fst (read metaint s) = Inr audio
         \<and> fst (read 1 (snd (read metaint s))) = Inr bs \<and> 2 \<le> length bs \<and> e = TypeError)
   \<or> (\<exists>audio lb. fst (read metaint s) = Inr audio
         \<and> fst (read 1 (snd (read metaint s))) = Inr [lb] \<and> 0 < lb
         \<and> fst (read (uint lb * 16) (snd (read 1 (snd (read metaint s))))) = Inl e)"
proof -
  obtain r1 s1 where a: "read metaint s = (r1, s1)" by (cases "read metaint s")
  obtain r2 s2 where b: "read 1 s1 = (r2, s2)" by (cases "read 1 s1")
  show ?thesis
  proof (cases r1)
    case (Inl e1)
    with a show ?thesis by (simp add: read_block_def)
  next
    case audio: (Inr audio)
    show ?thesis
    proof (cases r2)
      case (Inl e2)
      with a b audio show ?thesis by (simp add: read_block_def)
    next
      case lenb: (Inr bs)
      show ?thesis
      proof (cases bs)
        case Nil
        with a b audio lenb show ?thesis by (simp add: read_block_def)
      next
        case (Cons x xs)
        show ?thesis
        proof (cases xs)
          case Nil
          obtain r3 s3 where c: "read (uint x * 16) s2 = (r3, s3)"
            by (cases "read (uint x * 16) s2")
          have pos: "0 < uint x \<longleftrightarrow> 0 < x" by (simp add: word_less_def)
          from a b c audio lenb Cons Nil pos show ?thesis
            by (cases r3) (simp_all add: read_block_def ord_single)
        next
          case (Cons y ys)
          with a b audio lenb \<open>bs = x # xs\<close> show ?thesis
            by (auto simp: read_block_def ord_def)
        qed
      qed
    qed
  qed
qed

subsection \<open>The loop over the windows\<close>

lemma scan_found:
  "read_block read metaint s = (Inr (Some metadata), s') \<Longrightarrow> normalize metadata = Inr (Some t) \<Longrightarrow>
   0 < n \<Longrightarrow> scan read n metaint s = (Inr (Some t), s')"
  by (cases n) simp_all

lemma scan_skip:
  "read_block read metaint s = (Inr None, s') \<Longrightarrow> 0 < n \<Longrightarrow>
   scan read n metaint s = scan read (n - 1) metaint s'"
  by (cases n) simp_all

lemma scan_raises:
  "read_block read metaint s = (Inl e, s') \<Longrightarrow> 0 < n \<Longrightarrow> scan read n metaint s = (Inl e, s')"
  by (cases n) simp_all


subsection \<open>The reads of a scan\<close>




subsection \<open>Reading a body held in memory\<close>

lemma bytesio_read_exact:
  "0 \<le> m \<Longrightarrow> m < 2 ^ 63 \<Longrightarrow> length a = nat m \<Longrightarrow> bytesio_read m (a @ b) = (Inr a, b)"
  by (simp add: bytesio_read_def)

lemma bytesio_read_1_Cons: "bytesio_read 1 (x # xs) = (Inr [x], xs)"
  by (simp add: bytesio_read_def)

lemma bytesio_read_1_Nil: "bytesio_read 1 [] = (Inr [], [])"
  by (simp add: bytesio_read_def)

lemma block_length: "nat (uint x * 16) = 16 * unat x" for x :: byte
  by (simp add: nat_mult_distrib)

lemma bytesio_read_block:
  "bytesio_read (uint x * 16) body = (Inr (take (16 * unat x) body), drop (16 * unat x) body)"
  for x :: byte
  using uint_byte_small [of x] by (simp add: bytesio_read_def block_length)

lemma bytesio_read_overflow:
  "2 ^ 63 \<le> amt \<or> amt < - (2 ^ 63) \<Longrightarrow> bytesio_read amt body = (Inl OverflowError, body)"
  by (simp add: bytesio_read_def)

text \<open>One window over a body held in memory, in one equation.\<close>

lemma bytesio_block:
  assumes "- (2 ^ 63) \<le> metaint" and "metaint < 2 ^ 63"
  shows "read_block bytesio_read metaint body =
     (case (if metaint < 0 then [] else drop (nat metaint) body) of
        [] \<Rightarrow> (Inr None, [])
      | x # body2 \<Rightarrow>
          if x = 0 then (Inr None, body2)
          else (Inr (Some (utf8_decode_ignore (take (16 * unat x) body2))),
                drop (16 * unat x) body2))"
proof -
  define body1 where "body1 = (if metaint < 0 then [] else drop (nat metaint) body)"
  from assms have a: "bytesio_read metaint body
      = (Inr (if metaint < 0 then body else take (nat metaint) body), body1)"
    by (simp add: bytesio_read_def body1_def)
  show ?thesis
  proof (cases body1)
    case Nil
    with a show ?thesis
      unfolding body1_def [symmetric] by (simp add: read_block_def bytesio_read_1_Nil)
  next
    case (Cons x body2)
    from a Cons uint_pos [of x] show ?thesis
      unfolding body1_def [symmetric]
      by (simp add: read_block_def bytesio_read_1_Cons ord_single bytesio_read_block)
  qed
qed

lemma bytesio_block_overflow:
  assumes "2 ^ 63 \<le> metaint \<or> metaint < - (2 ^ 63)"
  shows "read_block bytesio_read metaint body = (Inl OverflowError, body)"
  by (simp add: read_block_def bytesio_read_overflow [OF assms])

lemma bytesio_block_total:
  assumes "- (2 ^ 63) \<le> metaint" and "metaint < 2 ^ 63"
  shows "\<exists>blk body'. read_block bytesio_read metaint body = (Inr blk, body')"
  unfolding bytesio_block [OF assms] by (simp split: list.split)

lemma bytesio_window:
  assumes "0 \<le> metaint" and "metaint < 2 ^ 63" and "length filler = nat metaint"
    and "0 < lb" and "length bytes \<le> 16 * unat lb"
    and "length bytes < 16 * unat lb \<longrightarrow> rest = []"
  shows "read_block bytesio_read metaint (filler @ lb # bytes @ rest)
           = (Inr (Some (utf8_decode_ignore bytes)), rest)"
proof -
  from assms(1,2) have range: "- (2 ^ 63) \<le> metaint" "metaint < 2 ^ 63" by simp_all
  from assms(4) have "lb \<noteq> 0" by auto
  with assms(1,3,5,6) show ?thesis
    unfolding bytesio_block [OF range] by auto
qed

lemma bytesio_zero:
  assumes "0 \<le> metaint" and "metaint < 2 ^ 63" and "length filler = nat metaint"
  shows "read_block bytesio_read metaint (filler @ 0 # rest) = (Inr None, rest)"
proof -
  from assms(1,2) have range: "- (2 ^ 63) \<le> metaint" "metaint < 2 ^ 63" by simp_all
  from assms(1,3) show ?thesis
    unfolding bytesio_block [OF range] by simp
qed

lemma bytesio_exhausted:
  assumes "0 \<le> metaint" and "metaint < 2 ^ 63" and "length body \<le> nat metaint"
  shows "read_block bytesio_read metaint body = (Inr None, [])"
proof -
  from assms(1,2) have range: "- (2 ^ 63) \<le> metaint" "metaint < 2 ^ 63" by simp_all
  from assms(1,3) show ?thesis
    unfolding bytesio_block [OF range] by simp
qed


lemma bytesio_scan_exhausted:
  "0 \<le> metaint \<Longrightarrow> metaint < 2 ^ 63 \<Longrightarrow> scan bytesio_read n metaint [] = (Inr None, [])"
  by (induction n) (simp_all add: bytesio_exhausted)

lemma bytesio_scan_short:
  assumes "0 \<le> metaint" and "metaint < 2 ^ 63" and "length body \<le> nat metaint"
  shows "fst (scan bytesio_read n metaint body) = Inr None"
proof (cases n)
  case 0
  then show ?thesis by simp
next
  case (Suc j)
  with bytesio_exhausted [OF assms] bytesio_scan_exhausted [OF assms(1,2), of j]
  show ?thesis by simp
qed


lemma bytesio_scan_overflow:
  assumes "2 ^ 63 \<le> metaint \<or> metaint < - (2 ^ 63)"
  shows "0 < n \<Longrightarrow> scan bytesio_read n metaint body = (Inl OverflowError, body)"
  using bytesio_block_overflow [OF assms] by (rule scan_raises)








subsection \<open>Decoding\<close>

lemma utf8_decode_ascii: "\<forall>b \<in> set bytes. b < 0x80 \<Longrightarrow> utf8_decode_ignore bytes = map unat bytes"
  by (induction bytes) simp_all

lemma utf8_decode_drops_invalid:
  "\<forall>b \<in> set bytes. b < 0x80 \<or> (0x80 \<le> b \<and> b < 0xC2) \<or> 0xF5 \<le> b \<Longrightarrow>
   utf8_decode_ignore bytes = map unat (filter (\<lambda>b. b < 0x80) bytes)"
  by (induction bytes) (auto simp: word_less_nat_alt word_le_nat_alt)

text \<open>
  Comparisons of bytes are read as comparisons of their values, and the long
  conditional of the decoder is unfolded one lead byte at a time.
\<close>

lemma unat_byte_of_nat: "n < 256 \<Longrightarrow> unat (of_nat n :: byte) = n"
  by (simp add: unat_of_nat)

lemma of_nat_unat_byte: "of_nat (unat ch) = ch" for ch :: byte
  by simp

lemma byte_eq_numeral_iff:
  "(ch = (numeral k :: byte)) = (unat ch = unat (numeral k :: byte))"
  by (rule word_unat_eq_iff)

lemma byte_eq_E0: "(ch = (0xE0 :: byte)) = (unat ch = 0xE0)"
  and byte_eq_ED: "(ch = (0xED :: byte)) = (unat ch = 0xED)"
  and byte_eq_F0: "(ch = (0xF0 :: byte)) = (unat ch = 0xF0)"
  and byte_eq_F4: "(ch = (0xF4 :: byte)) = (unat ch = 0xF4)"
  unfolding byte_eq_numeral_iff by simp_all

lemmas byte_nat = word_less_nat_alt word_le_nat_alt is_continuation_def
  byte_eq_E0 byte_eq_ED byte_eq_F0 byte_eq_F4

lemma decode_one:
  "unat ch < 0x80 \<Longrightarrow> utf8_decode_ignore (ch # rest) = unat ch # utf8_decode_ignore rest"
  by (simp add: word_less_nat_alt)

lemma decode_two:
  assumes "0xC2 \<le> unat ch" "unat ch < 0xE0" "0x80 \<le> unat ch2" "unat ch2 < 0xC0"
  shows "utf8_decode_ignore (ch # ch2 # rest)
     = (unat ch * 64 + unat ch2 - (0xC0 * 64 + 0x80)) # utf8_decode_ignore rest"
proof -
  from assms have "\<not> ch < 0x80" "ch < 0xE0" "\<not> ch < 0xC2" "is_continuation ch2"
    by (simp_all add: byte_nat)
  then show ?thesis
    by (subst utf8_decode_ignore.simps(2)) (simp del: utf8_decode_ignore.simps)
qed

lemma decode_three:
  assumes "0xE0 \<le> unat ch" "unat ch < 0xF0" "0x80 \<le> unat ch2" "unat ch2 < 0xC0"
    "0x80 \<le> unat ch3" "unat ch3 < 0xC0"
    "unat ch = 0xE0 \<longrightarrow> 0xA0 \<le> unat ch2" "unat ch = 0xED \<longrightarrow> unat ch2 < 0xA0"
  shows "utf8_decode_ignore (ch # ch2 # ch3 # rest)
     = (unat ch * 4096 + unat ch2 * 64 + unat ch3 - (0xE0 * 4096 + 0x80 * 64 + 0x80))
         # utf8_decode_ignore rest"
proof -
  from assms have "\<not> ch < 0x80" "\<not> ch < 0xE0" "ch < 0xF0"
    "is_continuation ch2" "is_continuation ch3"
    by (simp_all add: byte_nat)
  moreover from assms have "\<not> (if ch2 < 0xA0 then ch = 0xE0 else ch = 0xED)"
    by (auto simp: byte_nat)
  ultimately show ?thesis
    by (subst utf8_decode_ignore.simps(2)) (simp del: utf8_decode_ignore.simps)
qed

lemma decode_four:
  assumes "0xF0 \<le> unat ch" "unat ch < 0xF5" "0x80 \<le> unat ch2" "unat ch2 < 0xC0"
    "0x80 \<le> unat ch3" "unat ch3 < 0xC0" "0x80 \<le> unat ch4" "unat ch4 < 0xC0"
    "unat ch = 0xF0 \<longrightarrow> 0x90 \<le> unat ch2" "unat ch = 0xF4 \<longrightarrow> unat ch2 < 0x90"
  shows "utf8_decode_ignore (ch # ch2 # ch3 # ch4 # rest)
     = (unat ch * 262144 + unat ch2 * 4096 + unat ch3 * 64 + unat ch4
          - (0xF0 * 262144 + 0x80 * 4096 + 0x80 * 64 + 0x80))
         # utf8_decode_ignore rest"
proof -
  from assms have "\<not> ch < 0x80" "\<not> ch < 0xE0" "\<not> ch < 0xF0" "ch < 0xF5"
    "is_continuation ch2" "is_continuation ch3" "is_continuation ch4"
    by (simp_all add: byte_nat)
  moreover from assms have "\<not> (if ch2 < 0x90 then ch = 0xF0 else ch = 0xF4)"
    by (auto simp: byte_nat)
  ultimately show ?thesis
    by (subst utf8_decode_ignore.simps(2)) (simp del: utf8_decode_ignore.simps)
qed

lemma decode_lead2:
  assumes "\<not> ch < 0xC2" "ch < 0xE0"
  shows "utf8_decode_ignore (ch # s) =
     (case s of
        [] \<Rightarrow> []
      | ch2 # s2 \<Rightarrow>
          if \<not> is_continuation ch2 then utf8_decode_ignore s
          else (unat ch * 64 + unat ch2 - (0xC0 * 64 + 0x80)) # utf8_decode_ignore s2)"
proof -
  from assms have "\<not> ch < 0x80" by (simp add: byte_nat)
  with assms show ?thesis
    by (subst utf8_decode_ignore.simps(2)) (simp only: if_True if_False)
qed

lemma decode_lead3:
  assumes "\<not> ch < 0xE0" "ch < 0xF0"
  shows "utf8_decode_ignore (ch # s) =
     (case s of
        [] \<Rightarrow> []
      | ch2 # s2 \<Rightarrow>
          if \<not> is_continuation ch2 \<or> (if ch2 < 0xA0 then ch = 0xE0 else ch = 0xED)
          then utf8_decode_ignore s
          else (case s2 of
                  [] \<Rightarrow> []
                | ch3 # s3 \<Rightarrow>
                    if \<not> is_continuation ch3 then utf8_decode_ignore s2
                    else (unat ch * 4096 + unat ch2 * 64 + unat ch3
                            - (0xE0 * 4096 + 0x80 * 64 + 0x80))
                           # utf8_decode_ignore s3))"
proof -
  from assms have "\<not> ch < 0x80" by (simp add: byte_nat)
  with assms show ?thesis
    by (subst utf8_decode_ignore.simps(2)) (simp only: if_True if_False)
qed

lemma decode_lead4:
  assumes "\<not> ch < 0xF0" "ch < 0xF5"
  shows "utf8_decode_ignore (ch # s) =
     (case s of
        [] \<Rightarrow> []
      | ch2 # s2 \<Rightarrow>
          if \<not> is_continuation ch2 \<or> (if ch2 < 0x90 then ch = 0xF0 else ch = 0xF4)
          then utf8_decode_ignore s
          else (case s2 of
                  [] \<Rightarrow> []
                | ch3 # s3 \<Rightarrow>
                    if \<not> is_continuation ch3 then utf8_decode_ignore s2
                    else (case s3 of
                            [] \<Rightarrow> []
                          | ch4 # s4 \<Rightarrow>
                              if \<not> is_continuation ch4 then utf8_decode_ignore s3
                              else (unat ch * 262144 + unat ch2 * 4096 + unat ch3 * 64
                                      + unat ch4
                                      - (0xF0 * 262144 + 0x80 * 4096 + 0x80 * 64 + 0x80))
                                     # utf8_decode_ignore s4)))"
proof -
  from assms have "\<not> ch < 0x80" "\<not> ch < 0xE0" by (simp_all add: byte_nat)
  with assms show ?thesis
    by (subst utf8_decode_ignore.simps(2)) (simp only: if_True if_False)
qed

lemma decode_bad_lead:
  assumes "\<not> ch < 0x80" "ch < 0xC2 \<or> \<not> ch < 0xF5"
  shows "utf8_decode_ignore (ch # s) = utf8_decode_ignore s"
  using assms
  by (subst utf8_decode_ignore.simps(2)) (auto simp: byte_nat simp del: utf8_decode_ignore.simps)

text \<open>A code point written in base 64, as the encoder cuts it.\<close>

lemma digits64_two: "(c :: nat) = c div 64 * 64 + c mod 64"
  by simp

lemma digits64_three: "(c :: nat) = c div 4096 * 4096 + c div 64 mod 64 * 64 + c mod 64"
proof -
  have "c div 4096 = c div 64 div 64" by (simp add: div_mult2_eq)
  then have "c div 64 = c div 4096 * 64 + c div 64 mod 64" by simp
  then have "c div 64 * 64 = c div 4096 * 4096 + c div 64 mod 64 * 64" by simp
  with digits64_two [of c] show ?thesis by simp
qed

lemma digits64_four:
  "(c :: nat) = c div 262144 * 262144 + c div 4096 mod 64 * 4096 + c div 64 mod 64 * 64 + c mod 64"
proof -
  have "c div 262144 = c div 4096 div 64" by (simp add: div_mult2_eq)
  then have "c div 4096 = c div 262144 * 64 + c div 4096 mod 64" by simp
  then have "c div 4096 * 4096 = c div 262144 * 262144 + c div 4096 mod 64 * 4096" by simp
  with digits64_three [of c] show ?thesis by simp
qed

lemma mod64_digit: "r < 64 \<Longrightarrow> (q * 64 + r) mod 64 = (r :: nat)"
  by simp

text \<open>Encoding a scalar value and decoding it gives the value back.\<close>

lemma encode_two_decoded:
  assumes "0x80 \<le> c" "c < 0x800"
  shows "utf8_decode_ignore (of_nat (0xC0 + c div 64) # of_nat (0x80 + c mod 64) # rest)
           = c # utf8_decode_ignore rest"
proof -
  define a r where "a = c div 64" and "r = c mod 64"
  define ch :: byte where "ch = of_nat (0xC0 + a)"
  define ch2 :: byte where "ch2 = of_nat (0x80 + r)"
  have c: "c = a * 64 + r" and r: "r < 64"
    by (simp_all add: a_def r_def)
  from c r assms have a: "2 \<le> a" "a < 32" by linarith+
  have ch: "unat ch = 0xC0 + a"
    unfolding ch_def using a by (intro unat_byte_of_nat) simp
  have ch2: "unat ch2 = 0x80 + r"
    unfolding ch2_def using r by (intro unat_byte_of_nat) simp
  have val: "unat ch * 64 + unat ch2 - (0xC0 * 64 + 0x80) = c"
    unfolding ch ch2 using c by (simp add: algebra_simps)
  have "utf8_decode_ignore (ch # ch2 # rest)
          = (unat ch * 64 + unat ch2 - (0xC0 * 64 + 0x80)) # utf8_decode_ignore rest"
    using a r by (intro decode_two) (simp_all add: ch ch2)
  then have "utf8_decode_ignore (ch # ch2 # rest) = c # utf8_decode_ignore rest"
    by (simp only: val)
  then show ?thesis by (simp only: ch_def ch2_def a_def r_def)
qed

lemma encode_three_decoded:
  assumes "0x800 \<le> c" "c < 0x10000" "c < 0xD800 \<or> 0xE000 \<le> c"
  shows "utf8_decode_ignore (of_nat (0xE0 + c div 4096) # of_nat (0x80 + c div 64 mod 64)
            # of_nat (0x80 + c mod 64) # rest)
           = c # utf8_decode_ignore rest"
proof -
  define a b r where "a = c div 4096" and "b = c div 64 mod 64" and "r = c mod 64"
  define ch :: byte where "ch = of_nat (0xE0 + a)"
  define ch2 :: byte where "ch2 = of_nat (0x80 + b)"
  define ch3 :: byte where "ch3 = of_nat (0x80 + r)"
  have c: "c = a * 4096 + b * 64 + r"
    unfolding a_def b_def r_def by (rule digits64_three)
  have b: "b < 64" and r: "r < 64"
    by (simp_all add: b_def r_def)
  from c b r assms have a: "a < 16" by linarith
  from c b r assms have low: "a = 0 \<longrightarrow> 32 \<le> b" by linarith
  from c b r assms have sur: "a = 13 \<longrightarrow> b < 32" by linarith
  have ch: "unat ch = 0xE0 + a"
    unfolding ch_def using a by (intro unat_byte_of_nat) simp
  have ch2: "unat ch2 = 0x80 + b"
    unfolding ch2_def using b by (intro unat_byte_of_nat) simp
  have ch3: "unat ch3 = 0x80 + r"
    unfolding ch3_def using r by (intro unat_byte_of_nat) simp
  have val: "unat ch * 4096 + unat ch2 * 64 + unat ch3 - (0xE0 * 4096 + 0x80 * 64 + 0x80) = c"
    unfolding ch ch2 ch3 using c by (simp add: algebra_simps)
  have "utf8_decode_ignore (ch # ch2 # ch3 # rest)
          = (unat ch * 4096 + unat ch2 * 64 + unat ch3 - (0xE0 * 4096 + 0x80 * 64 + 0x80))
              # utf8_decode_ignore rest"
    using a b r low sur by (intro decode_three) (simp_all add: ch ch2 ch3)
  then have "utf8_decode_ignore (ch # ch2 # ch3 # rest) = c # utf8_decode_ignore rest"
    by (simp only: val)
  then show ?thesis by (simp only: ch_def ch2_def ch3_def a_def b_def r_def)
qed

lemma encode_four_decoded:
  assumes "0x10000 \<le> c" "c < 0x110000"
  shows "utf8_decode_ignore (of_nat (0xF0 + c div 262144) # of_nat (0x80 + c div 4096 mod 64)
            # of_nat (0x80 + c div 64 mod 64) # of_nat (0x80 + c mod 64) # rest)
           = c # utf8_decode_ignore rest"
proof -
  define a b d r where "a = c div 262144" and "b = c div 4096 mod 64"
    and "d = c div 64 mod 64" and "r = c mod 64"
  define ch :: byte where "ch = of_nat (0xF0 + a)"
  define ch2 :: byte where "ch2 = of_nat (0x80 + b)"
  define ch3 :: byte where "ch3 = of_nat (0x80 + d)"
  define ch4 :: byte where "ch4 = of_nat (0x80 + r)"
  have c: "c = a * 262144 + b * 4096 + d * 64 + r"
    unfolding a_def b_def d_def r_def by (rule digits64_four)
  have b: "b < 64" and d: "d < 64" and r: "r < 64"
    by (simp_all add: b_def d_def r_def)
  from c b d r assms have a: "a < 5" by linarith
  from c b d r assms have low: "a = 0 \<longrightarrow> 16 \<le> b" by linarith
  from c b d r assms have high: "a = 4 \<longrightarrow> b < 16" by linarith
  have ch: "unat ch = 0xF0 + a"
    unfolding ch_def using a by (intro unat_byte_of_nat) simp
  have ch2: "unat ch2 = 0x80 + b"
    unfolding ch2_def using b by (intro unat_byte_of_nat) simp
  have ch3: "unat ch3 = 0x80 + d"
    unfolding ch3_def using d by (intro unat_byte_of_nat) simp
  have ch4: "unat ch4 = 0x80 + r"
    unfolding ch4_def using r by (intro unat_byte_of_nat) simp
  have val: "unat ch * 262144 + unat ch2 * 4096 + unat ch3 * 64 + unat ch4
               - (0xF0 * 262144 + 0x80 * 4096 + 0x80 * 64 + 0x80) = c"
    unfolding ch ch2 ch3 ch4 using c by (simp add: algebra_simps)
  have "utf8_decode_ignore (ch # ch2 # ch3 # ch4 # rest)
          = (unat ch * 262144 + unat ch2 * 4096 + unat ch3 * 64 + unat ch4
               - (0xF0 * 262144 + 0x80 * 4096 + 0x80 * 64 + 0x80))
              # utf8_decode_ignore rest"
    using a b d r low high by (intro decode_four) (simp_all add: ch ch2 ch3 ch4)
  then have "utf8_decode_ignore (ch # ch2 # ch3 # ch4 # rest) = c # utf8_decode_ignore rest"
    by (simp only: val)
  then show ?thesis by (simp only: ch_def ch2_def ch3_def ch4_def a_def b_def d_def r_def)
qed

lemma utf8_decode_encode_char:
  assumes "is_scalar c"
  shows "utf8_decode_ignore (utf8_encode_char c @ rest) = c # utf8_decode_ignore rest"
proof -
  from assms have "c < 0x110000" by (auto simp: is_scalar_def)
  then have "c < 0x80 \<or> (0x80 \<le> c \<and> c < 0x800) \<or> (0x800 \<le> c \<and> c < 0x10000)
      \<or> (0x10000 \<le> c \<and> c < 0x110000)"
    by linarith
  then consider "c < 0x80" | "0x80 \<le> c" "c < 0x800" | "0x800 \<le> c" "c < 0x10000"
    | "0x10000 \<le> c" "c < 0x110000"
    by blast
  then show ?thesis
  proof cases
    case 1
    then have "unat (of_nat c :: byte) = c" by (intro unat_byte_of_nat) simp
    with 1 decode_one [of "of_nat c" rest] show ?thesis
      by (simp add: utf8_encode_char_def del: utf8_decode_ignore.simps)
  next
    case 2
    with encode_two_decoded [of c rest] show ?thesis
      by (simp add: utf8_encode_char_def del: utf8_decode_ignore.simps)
  next
    case 3
    moreover from assms 3 have "c < 0xD800 \<or> 0xE000 \<le> c" by (simp add: is_scalar_def)
    ultimately show ?thesis using encode_three_decoded [of c rest]
      by (simp add: utf8_encode_char_def del: utf8_decode_ignore.simps)
  next
    case 4
    with encode_four_decoded [of c rest] show ?thesis
      by (simp add: utf8_encode_char_def del: utf8_decode_ignore.simps)
  qed
qed

lemma utf8_decode_encode:
  "\<forall>c \<in> set s. is_scalar c \<Longrightarrow> utf8_decode_ignore (utf8_encode s @ rest) = s @ utf8_decode_ignore rest"
  by (induction s) (simp_all add: utf8_encode_def utf8_decode_encode_char del: utf8_decode_ignore.simps)

lemma utf8_encode_char_nonempty: "utf8_encode_char c \<noteq> []"
  by (simp add: utf8_encode_char_def)

lemma utf8_encode_Cons: "utf8_encode (c # s) = utf8_encode_char c @ utf8_encode s"
  by (simp add: utf8_encode_def)

text \<open>
  Conversely, the bytes of a well-formed sequence are the encoding of the code
  point decoded from them. So each step of the decoder either ends the text,
  or skips bytes and produces nothing, or consumes the encoding of one scalar
  value and produces that value.
\<close>

lemma two_bytes_encoded:
  assumes "0xC2 \<le> unat ch" "unat ch < 0xE0" "0x80 \<le> unat ch2" "unat ch2 < 0xC0"
  shows "utf8_encode_char (unat ch * 64 + unat ch2 - (0xC0 * 64 + 0x80)) = [ch, ch2]
       \<and> is_scalar (unat ch * 64 + unat ch2 - (0xC0 * 64 + 0x80))"
proof -
  define a r where "a = unat ch - 0xC0" and "r = unat ch2 - 0x80"
  define c where "c = unat ch * 64 + unat ch2 - (0xC0 * 64 + 0x80)"
  from assms have ch: "unat ch = 0xC0 + a" and ch2: "unat ch2 = 0x80 + r"
    and a: "2 \<le> a" "a < 32" and r: "r < 64"
    by (simp_all add: a_def r_def)
  have c: "c = a * 64 + r" unfolding c_def ch ch2 by (simp add: algebra_simps)
  from c a r have range: "0x80 \<le> c" "c < 0x800" by linarith+
  from c r have "c div 64 = a" "c mod 64 = r" by simp_all
  with range have "utf8_encode_char c = [of_nat (unat ch), of_nat (unat ch2)]"
    by (simp add: utf8_encode_char_def ch ch2)
  moreover from range have "is_scalar c" by (simp add: is_scalar_def)
  ultimately show ?thesis unfolding c_def by (simp only: of_nat_unat_byte)
qed

lemma three_bytes_encoded:
  assumes "0xE0 \<le> unat ch" "unat ch < 0xF0" "0x80 \<le> unat ch2" "unat ch2 < 0xC0"
    "0x80 \<le> unat ch3" "unat ch3 < 0xC0"
    "unat ch = 0xE0 \<longrightarrow> 0xA0 \<le> unat ch2" "unat ch = 0xED \<longrightarrow> unat ch2 < 0xA0"
  shows "utf8_encode_char (unat ch * 4096 + unat ch2 * 64 + unat ch3 - (0xE0 * 4096 + 0x80 * 64 + 0x80))
           = [ch, ch2, ch3]
       \<and> is_scalar (unat ch * 4096 + unat ch2 * 64 + unat ch3 - (0xE0 * 4096 + 0x80 * 64 + 0x80))"
proof -
  define a b r where "a = unat ch - 0xE0" and "b = unat ch2 - 0x80" and "r = unat ch3 - 0x80"
  define c where "c = unat ch * 4096 + unat ch2 * 64 + unat ch3 - (0xE0 * 4096 + 0x80 * 64 + 0x80)"
  from assms have ch: "unat ch = 0xE0 + a" and ch2: "unat ch2 = 0x80 + b"
    and ch3: "unat ch3 = 0x80 + r"
    and a: "a < 16" and b: "b < 64" and r: "r < 64"
    by (simp_all add: a_def b_def r_def)
  from assms have low: "a = 0 \<longrightarrow> 32 \<le> b" and sur: "a = 13 \<longrightarrow> b < 32"
    unfolding a_def b_def by linarith+
  have c: "c = a * 4096 + b * 64 + r" unfolding c_def ch ch2 ch3 by (simp add: algebra_simps)
  from c a b r low have range: "0x800 \<le> c" "c < 0x10000" by linarith+
  have notsur: "c < 0xD800 \<or> 0xE000 \<le> c"
  proof -
    consider "a < 13" | "a = 13" | "13 < a" by linarith
    then show ?thesis
    proof cases
      case 1
      with c b r show ?thesis by linarith
    next
      case 2
      with c r sur show ?thesis by linarith
    next
      case 3
      with c show ?thesis by linarith
    qed
  qed
  have "c div 64 = a * 64 + b" using c r by simp
  moreover from this b have "c div 64 mod 64 = b" by simp
  moreover have "c div 4096 = a"
  proof -
    have "c div 4096 = c div 64 div 64" by (simp add: div_mult2_eq)
    with \<open>c div 64 = a * 64 + b\<close> b show ?thesis by simp
  qed
  moreover have "c mod 64 = r"
  proof -
    from c have "c = (a * 64 + b) * 64 + r" by simp
    with r show ?thesis by (simp only: mod64_digit)
  qed
  ultimately have "utf8_encode_char c = [of_nat (unat ch), of_nat (unat ch2), of_nat (unat ch3)]"
    using range by (simp add: utf8_encode_char_def ch ch2 ch3)
  moreover from range notsur have "is_scalar c" by (simp add: is_scalar_def)
  ultimately show ?thesis unfolding c_def by (simp only: of_nat_unat_byte)
qed

lemma four_bytes_encoded:
  assumes "0xF0 \<le> unat ch" "unat ch < 0xF5" "0x80 \<le> unat ch2" "unat ch2 < 0xC0"
    "0x80 \<le> unat ch3" "unat ch3 < 0xC0" "0x80 \<le> unat ch4" "unat ch4 < 0xC0"
    "unat ch = 0xF0 \<longrightarrow> 0x90 \<le> unat ch2" "unat ch = 0xF4 \<longrightarrow> unat ch2 < 0x90"
  shows "utf8_encode_char (unat ch * 262144 + unat ch2 * 4096 + unat ch3 * 64 + unat ch4
            - (0xF0 * 262144 + 0x80 * 4096 + 0x80 * 64 + 0x80)) = [ch, ch2, ch3, ch4]
       \<and> is_scalar (unat ch * 262144 + unat ch2 * 4096 + unat ch3 * 64 + unat ch4
            - (0xF0 * 262144 + 0x80 * 4096 + 0x80 * 64 + 0x80))"
proof -
  define a b d r where "a = unat ch - 0xF0" and "b = unat ch2 - 0x80"
    and "d = unat ch3 - 0x80" and "r = unat ch4 - 0x80"
  define c where "c = unat ch * 262144 + unat ch2 * 4096 + unat ch3 * 64 + unat ch4
            - (0xF0 * 262144 + 0x80 * 4096 + 0x80 * 64 + 0x80)"
  from assms have ch: "unat ch = 0xF0 + a" and ch2: "unat ch2 = 0x80 + b"
    and ch3: "unat ch3 = 0x80 + d" and ch4: "unat ch4 = 0x80 + r"
    and a: "a < 5" and b: "b < 64" and d: "d < 64" and r: "r < 64"
    by (simp_all add: a_def b_def d_def r_def)
  from assms have low: "a = 0 \<longrightarrow> 16 \<le> b" and high: "a = 4 \<longrightarrow> b < 16"
    unfolding a_def b_def by linarith+
  have c: "c = a * 262144 + b * 4096 + d * 64 + r"
    unfolding c_def ch ch2 ch3 ch4 by (simp add: algebra_simps)
  from c a b d r low high have range: "0x10000 \<le> c" "c < 0x110000" by linarith+
  have q1: "c div 64 = a * 4096 + b * 64 + d" using c r by simp
  have q2: "c div 4096 = a * 64 + b"
  proof -
    have "c div 4096 = c div 64 div 64" by (simp add: div_mult2_eq)
    with q1 d show ?thesis by simp
  qed
  have q3: "c div 262144 = a"
  proof -
    have "c div 262144 = c div 4096 div 64" by (simp add: div_mult2_eq)
    with q2 b show ?thesis by simp
  qed
  have m1: "c div 64 mod 64 = d"
  proof -
    from q1 have "c div 64 = (a * 64 + b) * 64 + d" by simp
    then have "c div 64 mod 64 = d mod 64" by (simp only: mod_mult_self3)
    with d show ?thesis by simp
  qed
  from q2 b have m2: "c div 4096 mod 64 = b" by simp
  have m0: "c mod 64 = r"
  proof -
    from c have "c = (a * 4096 + b * 64 + d) * 64 + r" by simp
    with r show ?thesis by (simp only: mod64_digit)
  qed
  from range q3 m0 m1 m2
  have "utf8_encode_char c = [of_nat (unat ch), of_nat (unat ch2), of_nat (unat ch3), of_nat (unat ch4)]"
    by (simp add: utf8_encode_char_def ch ch2 ch3 ch4)
  moreover from range have "is_scalar c" by (simp add: is_scalar_def)
  ultimately show ?thesis unfolding c_def by (simp only: of_nat_unat_byte)
qed

lemma ascii_valid:
  assumes "ch < 0x80"
  shows "utf8_decode_ignore (ch # s) = unat ch # utf8_decode_ignore s
       \<and> utf8_encode_char (unat ch) = [ch] \<and> is_scalar (unat ch)"
proof -
  from assms have n: "unat ch < 0x80" by (simp add: byte_nat)
  then have "utf8_encode_char (unat ch) = [of_nat (unat ch)]" by (simp add: utf8_encode_char_def)
  then have "utf8_encode_char (unat ch) = [ch]" by (simp only: of_nat_unat_byte)
  moreover from n have "is_scalar (unat ch)" by (simp add: is_scalar_def)
  ultimately show ?thesis using decode_one [OF n] by simp
qed

lemma lead2_valid:
  assumes "\<not> ch < 0xC2" "ch < 0xE0" "is_continuation ch2"
  shows "\<exists>c. utf8_decode_ignore (ch # ch2 # s2) = c # utf8_decode_ignore s2
           \<and> utf8_encode_char c = [ch, ch2] \<and> is_scalar c"
proof -
  from assms have n: "0xC2 \<le> unat ch" "unat ch < 0xE0" "0x80 \<le> unat ch2" "unat ch2 < 0xC0"
    by (simp_all add: byte_nat)
  from decode_two [OF n] two_bytes_encoded [OF n] show ?thesis by blast
qed

lemma lead3_valid:
  assumes "\<not> ch < 0xE0" "ch < 0xF0" "is_continuation ch2"
    "\<not> (if ch2 < 0xA0 then ch = 0xE0 else ch = 0xED)" "is_continuation ch3"
  shows "\<exists>c. utf8_decode_ignore (ch # ch2 # ch3 # s3) = c # utf8_decode_ignore s3
           \<and> utf8_encode_char c = [ch, ch2, ch3] \<and> is_scalar c"
proof -
  from assms have n: "0xE0 \<le> unat ch" "unat ch < 0xF0" "0x80 \<le> unat ch2" "unat ch2 < 0xC0"
    "0x80 \<le> unat ch3" "unat ch3 < 0xC0"
    by (simp_all add: byte_nat)
  from assms(4) have m: "unat ch = 0xE0 \<longrightarrow> 0xA0 \<le> unat ch2" "unat ch = 0xED \<longrightarrow> unat ch2 < 0xA0"
    by (auto simp: byte_nat split: if_splits)
  from decode_three [OF n m] three_bytes_encoded [OF n m] show ?thesis by blast
qed

lemma lead4_valid:
  assumes "\<not> ch < 0xF0" "ch < 0xF5" "is_continuation ch2"
    "\<not> (if ch2 < 0x90 then ch = 0xF0 else ch = 0xF4)" "is_continuation ch3" "is_continuation ch4"
  shows "\<exists>c. utf8_decode_ignore (ch # ch2 # ch3 # ch4 # s4) = c # utf8_decode_ignore s4
           \<and> utf8_encode_char c = [ch, ch2, ch3, ch4] \<and> is_scalar c"
proof -
  from assms have n: "0xF0 \<le> unat ch" "unat ch < 0xF5" "0x80 \<le> unat ch2" "unat ch2 < 0xC0"
    "0x80 \<le> unat ch3" "unat ch3 < 0xC0" "0x80 \<le> unat ch4" "unat ch4 < 0xC0"
    by (simp_all add: byte_nat)
  from assms(4) have m: "unat ch = 0xF0 \<longrightarrow> 0x90 \<le> unat ch2" "unat ch = 0xF4 \<longrightarrow> unat ch2 < 0x90"
    by (auto simp: byte_nat split: if_splits)
  from decode_four [OF n m] four_bytes_encoded [OF n m] show ?thesis by blast
qed

lemma decode_step:
  "utf8_decode_ignore (ch # s) = []
   \<or> (\<exists>t. suffix t s \<and> utf8_decode_ignore (ch # s) = utf8_decode_ignore t)
   \<or> (\<exists>c t. ch # s = utf8_encode_char c @ t \<and> is_scalar c
          \<and> utf8_decode_ignore (ch # s) = c # utf8_decode_ignore t)"
  (is "?empty \<or> ?skip \<or> ?emit")
proof -
  have skip: ?skip if "utf8_decode_ignore (ch # s) = utf8_decode_ignore t" "suffix t s" for t
    using that by blast
  have emit: ?emit
    if "\<exists>c. utf8_decode_ignore (ch # s) = c # utf8_decode_ignore t
           \<and> utf8_encode_char c = p \<and> is_scalar c" "ch # s = p @ t" for p t
    using that by metis
  consider (one) "ch < 0x80"
    | (bad) "\<not> ch < 0x80" "ch < 0xC2 \<or> \<not> ch < 0xF5"
    | (two) "\<not> ch < 0xC2" "ch < 0xE0"
    | (three) "\<not> ch < 0xE0" "ch < 0xF0"
    | (four) "\<not> ch < 0xF0" "ch < 0xF5"
    by blast
  then show ?thesis
  proof cases
    case one
    from ascii_valid [OF one, of s]
    have "\<exists>c. utf8_decode_ignore (ch # s) = c # utf8_decode_ignore s
            \<and> utf8_encode_char c = [ch] \<and> is_scalar c"
      by blast
    then have ?emit by (rule emit) simp
    then show ?thesis by simp
  next
    case bad
    then have "utf8_decode_ignore (ch # s) = utf8_decode_ignore s"
      by (rule decode_bad_lead)
    then have ?skip by (rule skip) simp
    then show ?thesis by simp
  next
    case two
    note unfold = decode_lead2 [OF two]
    show ?thesis
    proof (cases s)
      case Nil
      have ?empty by (simp only: unfold Nil list.case)
      then show ?thesis by simp
    next
      case s: (Cons ch2 s2)
      show ?thesis
      proof (cases "is_continuation ch2")
        case False
        have "utf8_decode_ignore (ch # s) = utf8_decode_ignore s"
          unfolding s by (simp only: unfold [of "ch2 # s2"] list.case False simp_thms if_True)
        then have ?skip by (rule skip) simp
        then show ?thesis by simp
      next
        case True
        from lead2_valid [OF two True, of s2]
        have "\<exists>c. utf8_decode_ignore (ch # s) = c # utf8_decode_ignore s2
                \<and> utf8_encode_char c = [ch, ch2] \<and> is_scalar c"
          by (simp only: s)
        then have ?emit by (rule emit) (simp add: s)
        then show ?thesis by simp
      qed
    qed
  next
    case three
    note unfold = decode_lead3 [OF three]
    show ?thesis
    proof (cases s)
      case Nil
      have ?empty by (simp only: unfold Nil list.case)
      then show ?thesis by simp
    next
      case s: (Cons ch2 s2)
      show ?thesis
      proof (cases "\<not> is_continuation ch2 \<or> (if ch2 < 0xA0 then ch = 0xE0 else ch = 0xED)")
        case True
        have "utf8_decode_ignore (ch # s) = utf8_decode_ignore s"
          unfolding s by (simp only: unfold [of "ch2 # s2"] list.case if_P [OF True])
        then have ?skip by (rule skip) simp
        then show ?thesis by simp
      next
        case second: False
        show ?thesis
        proof (cases s2)
          case Nil
          have ?empty
            unfolding s Nil by (simp only: unfold [of "[ch2]"] list.case if_not_P [OF second])
          then show ?thesis by simp
        next
          case s2: (Cons ch3 s3)
          show ?thesis
          proof (cases "is_continuation ch3")
            case False
            have "utf8_decode_ignore (ch # s) = utf8_decode_ignore s2"
              unfolding s s2
              by (simp only: unfold [of "ch2 # ch3 # s3"] list.case if_not_P [OF second]
                    False simp_thms if_True)
            then have ?skip by (rule skip) (simp add: s suffix_Cons)
            then show ?thesis by simp
          next
            case True
            from second have "is_continuation ch2"
              and "\<not> (if ch2 < 0xA0 then ch = 0xE0 else ch = 0xED)" by simp_all
            from lead3_valid [OF three this True, of s3]
            have "\<exists>c. utf8_decode_ignore (ch # s) = c # utf8_decode_ignore s3
                    \<and> utf8_encode_char c = [ch, ch2, ch3] \<and> is_scalar c"
              by (simp only: s s2)
            then have ?emit by (rule emit) (simp add: s s2)
            then show ?thesis by simp
          qed
        qed
      qed
    qed
  next
    case four
    note unfold = decode_lead4 [OF four]
    show ?thesis
    proof (cases s)
      case Nil
      have ?empty by (simp only: unfold Nil list.case)
      then show ?thesis by simp
    next
      case s: (Cons ch2 s2)
      show ?thesis
      proof (cases "\<not> is_continuation ch2 \<or> (if ch2 < 0x90 then ch = 0xF0 else ch = 0xF4)")
        case True
        have "utf8_decode_ignore (ch # s) = utf8_decode_ignore s"
          unfolding s by (simp only: unfold [of "ch2 # s2"] list.case if_P [OF True])
        then have ?skip by (rule skip) simp
        then show ?thesis by simp
      next
        case second: False
        show ?thesis
        proof (cases s2)
          case Nil
          have ?empty
            unfolding s Nil by (simp only: unfold [of "[ch2]"] list.case if_not_P [OF second])
          then show ?thesis by simp
        next
          case s2: (Cons ch3 s3)
          show ?thesis
          proof (cases "is_continuation ch3")
            case False
            have "utf8_decode_ignore (ch # s) = utf8_decode_ignore s2"
              unfolding s s2
              by (simp only: unfold [of "ch2 # ch3 # s3"] list.case if_not_P [OF second]
                    False simp_thms if_True)
            then have ?skip by (rule skip) (simp add: s suffix_Cons)
            then show ?thesis by simp
          next
            case third: True
            show ?thesis
            proof (cases s3)
              case Nil
              have ?empty
                unfolding s s2 Nil
                by (simp only: unfold [of "[ch2, ch3]"] list.case if_not_P [OF second]
                      third simp_thms if_False)
              then show ?thesis by simp
            next
              case s3: (Cons ch4 s4)
              show ?thesis
              proof (cases "is_continuation ch4")
                case False
                have "utf8_decode_ignore (ch # s) = utf8_decode_ignore s3"
                  unfolding s s2 s3
                  by (simp only: unfold [of "ch2 # ch3 # ch4 # s4"] list.case
                        if_not_P [OF second] third False simp_thms if_True if_False)
                then have ?skip by (rule skip) (simp add: s s2 suffix_Cons)
                then show ?thesis by simp
              next
                case True
                from second have "is_continuation ch2"
                  and "\<not> (if ch2 < 0x90 then ch = 0xF0 else ch = 0xF4)" by simp_all
                from lead4_valid [OF four this third True, of s4]
                have "\<exists>c. utf8_decode_ignore (ch # s) = c # utf8_decode_ignore s4
                        \<and> utf8_encode_char c = [ch, ch2, ch3, ch4] \<and> is_scalar c"
                  by (simp only: s s2 s3)
                then have ?emit by (rule emit) (simp add: s s2 s3)
                then show ?thesis by simp
              qed
            qed
          qed
        qed
      qed
    qed
  qed
qed

lemma utf8_decode_kept:
  "subseq (utf8_encode (utf8_decode_ignore bs)) bs \<and> (\<forall>c \<in> set (utf8_decode_ignore bs). is_scalar c)"
proof (induction bs rule: length_induct)
  case (1 bs)
  then have IH: "subseq (utf8_encode (utf8_decode_ignore t)) t
      \<and> (\<forall>c \<in> set (utf8_decode_ignore t). is_scalar c)" if "length t < length bs" for t
    using that by blast
  show ?case
  proof (cases bs)
    case Nil
    then show ?thesis by (simp add: utf8_encode_def)
  next
    case (Cons ch s)
    from decode_step [of ch s]
    consider (empty) "utf8_decode_ignore (ch # s) = []"
      | (skip) t where "suffix t s" "utf8_decode_ignore (ch # s) = utf8_decode_ignore t"
      | (emit) c t where "ch # s = utf8_encode_char c @ t" "is_scalar c"
          "utf8_decode_ignore (ch # s) = c # utf8_decode_ignore t"
      by blast
    then show ?thesis
    proof cases
      case empty
      then show ?thesis by (simp only: Cons) (simp add: utf8_encode_def)
    next
      case skip
      from skip(1) have len: "length t < length bs"
        by (auto simp: Cons suffix_def)
      from skip(1) have "subseq t (ch # s)"
        by (intro subseq_drop_many [of t s "[ch]", simplified] suffix_imp_subseq)
      with IH [OF len] have "subseq (utf8_encode (utf8_decode_ignore t)) (ch # s)"
        using subseq_order.trans by blast
      with IH [OF len] show ?thesis by (simp only: Cons skip(2)) simp
    next
      case emit
      from emit(1) utf8_encode_char_nonempty [of c] have len: "length t < length bs"
        unfolding Cons by (cases "utf8_encode_char c") auto
      from IH [OF len]
      have "subseq (utf8_encode_char c @ utf8_encode (utf8_decode_ignore t)) (utf8_encode_char c @ t)"
        by (simp only: subseq_append')
      with IH [OF len] emit(2) show ?thesis
        by (simp only: Cons emit(3) utf8_encode_Cons) (simp add: emit(1))
    qed
  qed
qed

lemma utf8_decode_no_replacement:
  "0xFFFD \<in> set (utf8_decode_ignore bs) \<Longrightarrow> sublist [0xEF, 0xBF, 0xBD] bs"
proof (induction bs rule: length_induct)
  case (1 bs)
  then have IH: "sublist [0xEF, 0xBF, 0xBD] t"
    if "length t < length bs" "0xFFFD \<in> set (utf8_decode_ignore t)" for t
    using that by blast
  have enc: "utf8_encode_char 0xFFFD = [0xEF, 0xBF, 0xBD]"
    by (simp add: utf8_encode_char_def)
  show ?case
  proof (cases bs)
    case Nil
    with "1.prems" show ?thesis by simp
  next
    case (Cons ch s)
    from decode_step [of ch s]
    consider (empty) "utf8_decode_ignore (ch # s) = []"
      | (skip) t where "suffix t s" "utf8_decode_ignore (ch # s) = utf8_decode_ignore t"
      | (emit) c t where "ch # s = utf8_encode_char c @ t" "is_scalar c"
          "utf8_decode_ignore (ch # s) = c # utf8_decode_ignore t"
      by blast
    then show ?thesis
    proof cases
      case empty
      with "1.prems" show ?thesis by (simp only: Cons) simp
    next
      case skip
      from skip(1) have len: "length t < length bs"
        by (auto simp: Cons suffix_def)
      from "1.prems" have "0xFFFD \<in> set (utf8_decode_ignore t)"
        by (simp only: Cons skip(2))
      from IH [OF len this] have "sublist [0xEF, 0xBF, 0xBD] t" .
      moreover from skip(1) have "suffix t bs" by (simp add: Cons suffix_Cons)
      ultimately show ?thesis
        using suffix_imp_sublist sublist_order.order.trans by blast
    next
      case emit
      from emit(1) utf8_encode_char_nonempty [of c] have len: "length t < length bs"
        unfolding Cons by (cases "utf8_encode_char c") auto
      from "1.prems" have "c = 0xFFFD \<or> 0xFFFD \<in> set (utf8_decode_ignore t)"
        by (simp only: Cons emit(3)) auto
      then show ?thesis
      proof
        assume "c = 0xFFFD"
        with emit(1) enc have "bs = [0xEF, 0xBF, 0xBD] @ t" by (simp add: Cons)
        then show ?thesis by (metis sublist_appendI append_Nil)
      next
        assume "0xFFFD \<in> set (utf8_decode_ignore t)"
        from IH [OF len this] have "sublist [0xEF, 0xBF, 0xBD] t" .
        moreover from emit(1) have "suffix t bs" by (simp add: Cons suffix_def)
        ultimately show ?thesis
          using suffix_imp_sublist sublist_order.order.trans by blast
      qed
    qed
  qed
qed

subsection \<open>Dictionaries and headers\<close>

lemma track_info_neq:
  "u \<noteq> t \<longleftrightarrow> artist u \<noteq> artist t \<or> track u \<noteq> track t" for u t :: track_info
  by (cases u, cases t) auto

lemma header_fallback_iff:
  "header_fallback r = Some t \<longleftrightarrow>
     (\<exists>name. headers r ''icy-name'' = Some name
        \<and> t = \<lparr>artist = latin1 name, track = ascii ''Current Track''\<rparr>)"
  by (cases "headers r ''icy-name''") (auto simp: header_fallback_def)

subsection \<open>Examples of \<^verbatim>\<open>int\<close>\<close>

text \<open>
  The interval header as \<^verbatim>\<open>int\<close> reads it: white space and one sign around
  the digits, single underscores between them; the separators U+001C to
  U+001F are white space for \<^verbatim>\<open>str.strip\<close> but not here; the value is not
  bounded, and more than 4300 digits are refused.
\<close>

lemma py_int_accepts:
  "py_int ''0'' = Inr 0"
  "py_int ''1'' = Inr 1"
  "py_int '' 16 '' = Inr 16"
  "py_int ''+16'' = Inr 16"
  "py_int ''-1'' = Inr (- 1)"
  "py_int ''1_000'' = Inr 1000"
  "py_int [CHR 0xA0, CHR ''1'', CHR ''6'', CHR 0x85] = Inr 16"
  "py_int ''9223372036854775808'' = Inr 9223372036854775808"
  by (simp_all add: py_int_def latin1_def int_space_def is_space_def is_digit_def)

lemma py_int_refuses:
  "py_int [] = Inl ValueError"
  "py_int ''+'' = Inl ValueError"
  "py_int ''- 1'' = Inl ValueError"
  "py_int ''+-1'' = Inl ValueError"
  "py_int ''1__0'' = Inl ValueError"
  "py_int ''_1'' = Inl ValueError"
  "py_int ''1_'' = Inl ValueError"
  "py_int ''16k'' = Inl ValueError"
  "py_int [CHR ''2'', CHR 0x1F] = Inl ValueError"
  "py_int [CHR 0x1C, CHR ''2''] = Inl ValueError"
  "py_int [CHR ''2'', CHR 0x00] = Inl ValueError"
  by (simp_all add: py_int_def latin1_def int_space_def is_space_def is_digit_def)

lemma int_digits_zeros: "\<exists>m. int_digits acc (replicate k 48) = Inr m"
  by (induction k arbitrary: acc) (simp_all add: is_digit_def)

lemma py_int_too_long:
  assumes "4300 < n"
  shows "py_int (replicate n CHR ''0'') = Inl ValueError"
proof -
  from assms obtain k where n: "n = Suc k" by (cases n) simp_all
  have zeros: "latin1 (replicate n CHR ''0'') = replicate n 48"
    by (simp add: latin1_def)
  have keep: "dropWhile int_space (replicate n 48) = replicate n 48"
    by (cases n) (simp_all add: int_space_def)
  have digits: "filter is_digit (replicate n 48) = replicate n 48"
    by (simp add: is_digit_def)
  obtain m where m: "int_digits 0 (replicate k 48) = Inr m"
    using int_digits_zeros by blast
  have "length (filter is_digit (48 # replicate k 48)) = n"
    using digits n by simp
  with assms m show ?thesis
    unfolding py_int_def zeros keep rev_replicate by (simp add: n is_digit_def del: filter.simps)
qed

section \<open>The frame decoder\<close>

text \<open>
  C1. Decoder round trip. Take any interval, any non-zero length byte \<open>lb\<close>
  and any \<open>16 * lb\<close> metadata bytes, and put \<open>interval\<close> filler bytes, the
  length byte and the metadata bytes at the front of a body held in memory
  (a body in memory has fewer than \<open>2 ^ 63\<close> bytes, and so has the filler).
  One window of the scan then yields the text of exactly those bytes and
  leaves exactly what follows them. When the bytes are the UTF-8 encoding of
  a text, the window yields that text, unchanged; in particular ASCII bytes
  are their own code points. When the text holds a \<^verbatim>\<open>StreamTitle=\<close> field,
  the loop returns in this window with the dictionary made from that text.
  The same holds over any transport: when the three reads of a window hand
  out the filler, the length byte and the metadata bytes, the window yields
  the text of those bytes.
\<close>

theorem decoder_roundtrip:
  assumes "0 \<le> metaint" and "metaint < 2 ^ 63" and "length filler = nat metaint"
    and "0 < lb" and "length bytes = 16 * unat lb"
  shows "read_block bytesio_read metaint (filler @ lb # bytes @ rest)
           = (Inr (Some (utf8_decode_ignore bytes)), rest)
       \<and> ((\<forall>c \<in> set metadata. is_scalar c) \<and> bytes = utf8_encode metadata \<longrightarrow>
            read_block bytesio_read metaint (filler @ lb # bytes @ rest)
              = (Inr (Some metadata), rest))
       \<and> ((\<forall>b \<in> set bytes. b < 0x80) \<longrightarrow> utf8_decode_ignore bytes = map unat bytes)
       \<and> ((\<exists>a b. utf8_decode_ignore bytes = a @ ascii ''StreamTitle='' @ b) \<longrightarrow>
            (\<exists>t. normalize (utf8_decode_ignore bytes) = Inr (Some t)
               \<and> scan bytesio_read (Suc n) metaint (filler @ lb # bytes @ rest)
                   = (Inr (Some t), rest)))
       \<and> (read metaint s = (Inr filler, s1) \<and> read 1 s1 = (Inr [lb], s2)
            \<and> read (uint lb * 16) s2 = (Inr bytes, s3) \<longrightarrow>
          read_block read metaint s = (Inr (Some (utf8_decode_ignore bytes)), s3)
          \<and> ((\<forall>c \<in> set metadata. is_scalar c) \<and> bytes = utf8_encode metadata \<longrightarrow>
               read_block read metaint s = (Inr (Some metadata), s3)))"
proof -
  have rb: "read_block bytesio_read metaint (filler @ lb # bytes @ rest)
              = (Inr (Some (utf8_decode_ignore bytes)), rest)"
    using assms by (intro bytesio_window) simp_all
  have decoded: "utf8_decode_ignore bytes = metadata"
    if "(\<forall>c \<in> set metadata. is_scalar c) \<and> bytes = utf8_encode metadata"
    using that utf8_decode_encode [of metadata "[]"] by simp
  have found: "\<exists>t. normalize (utf8_decode_ignore bytes) = Inr (Some t)
          \<and> scan bytesio_read (Suc n) metaint (filler @ lb # bytes @ rest) = (Inr (Some t), rest)"
    if "\<exists>a b. utf8_decode_ignore bytes = a @ ascii ''StreamTitle='' @ b"
  proof -
    from that have "py_in (ascii ''StreamTitle='') (utf8_decode_ignore bytes)"
      by (simp add: py_in_iff)
    then obtain t where "normalize (utf8_decode_ignore bytes) = Inr (Some t)"
      using normalize_marker by blast
    with rb show ?thesis by simp
  qed
  have any: "read_block read metaint s = (Inr (Some (utf8_decode_ignore bytes)), s3)"
    if "read metaint s = (Inr filler, s1) \<and> read 1 s1 = (Inr [lb], s2)
          \<and> read (uint lb * 16) s2 = (Inr bytes, s3)"
    using that assms(4) by (intro read_block_window [of "read" metaint s filler s1 lb s2]) simp_all
  from rb decoded found any utf8_decode_ascii [of bytes] show ?thesis by auto
qed

theorem decoder_roundtrip_witness:
  "(0 :: int) \<le> 1 \<and> (1 :: int) < 2 ^ 63 \<and> length [0 :: byte] = nat 1 \<and> (0 :: byte) < 1
   \<and> utf8_encode (ascii ''StreamTitle='' @ [0xE9] @ ascii '';'' @ [0])
       = ascii_bytes ''StreamTitle='' @ [0xC3, 0xA9] @ ascii_bytes '';'' @ [0]
   \<and> length (utf8_encode (ascii ''StreamTitle='' @ [0xE9] @ ascii '';'' @ [0])) = 16 * unat (1 :: byte)
   \<and> read_block bytesio_read 1
        ([0] @ 1 # utf8_encode (ascii ''StreamTitle='' @ [0xE9] @ ascii '';'' @ [0]) @ [9, 9])
       = (Inr (Some (ascii ''StreamTitle='' @ [0xE9] @ ascii '';'' @ [0])), [9, 9])
   \<and> scan bytesio_read (Suc 0) 1
        ([0] @ 1 # utf8_encode (ascii ''StreamTitle='' @ [0xE9] @ ascii '';'' @ [0]) @ [9, 9])
       = (Inr (Some \<lparr>artist = ascii ''Unknown Artist'', track = [0xE9]\<rparr>), [9, 9])"
proof -
  define metadata where "metadata = ascii ''StreamTitle='' @ [0xE9] @ ascii '';'' @ [0]"
  have enc: "utf8_encode metadata = ascii_bytes ''StreamTitle='' @ [0xC3, 0xA9] @ ascii_bytes '';'' @ [0]"
    by (simp add: metadata_def utf8_encode_def utf8_encode_char_def ascii_def ascii_bytes_def)
  have h1: "(0 :: int) \<le> 1" and h1': "(1 :: int) < 2 ^ 63"
    and h2: "length [0 :: byte] = nat 1" and h3: "(0 :: byte) < 1"
    by simp_all
  have h4: "length (utf8_encode metadata) = 16 * unat (1 :: byte)"
    unfolding enc by (simp add: ascii_bytes_def)
  have scalar: "\<forall>c \<in> set metadata. is_scalar c"
    by (simp add: metadata_def ascii_def is_scalar_def)
  note thm' = decoder_roundtrip [OF h1 h1' h2 h3 h4, of "[9, 9]" metadata 0]
  note whole = thm' [THEN conjunct2, THEN conjunct1]
  note titled = thm' [THEN conjunct2, THEN conjunct2, THEN conjunct2, THEN conjunct1]
  from whole scalar have block: "read_block bytesio_read 1 ([0] @ 1 # utf8_encode metadata @ [9, 9])
      = (Inr (Some metadata), [9, 9])"
    by simp
  with thm' [THEN conjunct1] have decoded: "utf8_decode_ignore (utf8_encode metadata) = metadata"
    by simp
  have field: "\<exists>a b. utf8_decode_ignore (utf8_encode metadata) = a @ ascii ''StreamTitle='' @ b"
    unfolding decoded
    by (rule exI [of _ "[]"], rule exI [of _ "[0xE9] @ ascii '';'' @ [0]"]) (simp add: metadata_def)
  have norm: "normalize metadata
                = Inr (Some \<lparr>artist = ascii ''Unknown Artist'', track = [0xE9]\<rparr>)"
    by (simp add: metadata_def eval_defs)
  from titled field obtain t where "normalize (utf8_decode_ignore (utf8_encode metadata)) = Inr (Some t)"
    and "scan bytesio_read (Suc 0) 1 ([0] @ 1 # utf8_encode metadata @ [9, 9]) = (Inr (Some t), [9, 9])"
    by blast
  with norm have "scan bytesio_read (Suc 0) 1 ([0] @ 1 # utf8_encode metadata @ [9, 9])
       = (Inr (Some \<lparr>artist = ascii ''Unknown Artist'', track = [0xE9]\<rparr>), [9, 9])"
    unfolding decoded by simp
  with block enc h1 h1' h2 h3 h4 show ?thesis unfolding metadata_def by simp
qed

text \<open>
  C8, as the code has it. A length byte of zero ends the window: no block is
  read and no exception is raised, nothing is returned for this window, only
  the audio bytes and the length byte are consumed, and the loop goes on with
  the next window. A fetch that ends with \<^verbatim>\<open>None\<close> changes nothing: nothing
  is submitted and \<^verbatim>\<open>last_track\<close> stays as it is. But a fetch whose ten
  windows all were empty ends with what the headers give, and with an
  \<^verbatim>\<open>icy-name\<close> header that is the station placeholder, not \<^verbatim>\<open>None\<close>;
  \<^verbatim>\<open>run\<close> handles the placeholder like every track: when it differs from
  \<^verbatim>\<open>last_track\<close> it is submitted and, on success, stored.
\<close>

theorem zero_length_window:
  "(read metaint s = (Inr audio, s1) \<and> read 1 s1 = (Inr [0], s2) \<longrightarrow>
       read_block read metaint s = (Inr None, s2)
     \<and> scan read (Suc n) metaint s = scan read n metaint s2)
   \<and> (0 \<le> metaint \<and> metaint < 2 ^ 63 \<and> length filler = nat metaint \<longrightarrow>
       read_block bytesio_read metaint (filler @ 0 # rest) = (Inr None, rest)
     \<and> scan bytesio_read (Suc n) metaint (filler @ 0 # rest) = scan bytesio_read n metaint rest)
   \<and> (fetch_metadata read got = None \<longrightarrow> run read [(got, posted)] self = (self, [None]))
   \<and> (headers r ''icy-metaint'' = Some v \<and> py_int v = Inr metaint
        \<and> fst (scan read 10 metaint (raw r)) = Inr None \<longrightarrow>
       fetch_metadata read (Inr r) = header_fallback r
     \<and> (headers r ''icy-name'' = None \<longrightarrow> fetch_metadata read (Inr r) = None)
     \<and> (\<forall>name. headers r ''icy-name'' = Some name \<longrightarrow>
          fetch_metadata read (Inr r)
            = Some \<lparr>artist = latin1 name, track = ascii ''Current Track''\<rparr>))
   \<and> (fetch_metadata read got = Some t \<and> last_track self \<noteq> Some t
        \<and> submit_to_listenbrainz posted t \<longrightarrow>
       run read [(got, posted)] self = (self\<lparr>last_track := Some t\<rparr>, [Some t]))"
proof -
  have a: "read_block read metaint s = (Inr None, s2)
         \<and> scan read (Suc n) metaint s = scan read n metaint s2"
    if "read metaint s = (Inr audio, s1) \<and> read 1 s1 = (Inr [0], s2)"
    using that read_block_zero [of "read" metaint s audio s1 s2] by simp
  have b: "read_block bytesio_read metaint (filler @ 0 # rest) = (Inr None, rest)
     \<and> scan bytesio_read (Suc n) metaint (filler @ 0 # rest) = scan bytesio_read n metaint rest"
    if "0 \<le> metaint \<and> metaint < 2 ^ 63 \<and> length filler = nat metaint"
    using that bytesio_zero [of metaint filler rest] by simp
  have c: "run read [(got, posted)] self = (self, [None])" if "fetch_metadata read got = None"
    using that by (simp add: observe_def)
  have d: "fetch_metadata read (Inr r) = header_fallback r"
    if "headers r ''icy-metaint'' = Some v \<and> py_int v = Inr metaint
        \<and> fst (scan read 10 metaint (raw r)) = Inr None"
    using that by (simp add: fetch_metadata_def)
  have e: "header_fallback r = None" if "headers r ''icy-name'' = None"
    using that by (simp add: header_fallback_def)
  have f: "header_fallback r = Some \<lparr>artist = latin1 name, track = ascii ''Current Track''\<rparr>"
    if "headers r ''icy-name'' = Some name" for name
    using that by (simp add: header_fallback_def)
  have g: "run read [(got, posted)] self = (self\<lparr>last_track := Some t\<rparr>, [Some t])"
    if "fetch_metadata read got = Some t \<and> last_track self \<noteq> Some t
        \<and> submit_to_listenbrainz posted t"
    using that by (auto simp: observe_def)
  from a b c d e f g show ?thesis by simp
qed

theorem zero_length_window_witness:
  "bytesio_read 2 ([7, 7] @ 0 # [5]) = (Inr [7, 7], 0 # [5])
   \<and> bytesio_read 1 (0 # [5]) = (Inr [0], [5])
   \<and> read_block bytesio_read 2 ([7, 7] @ 0 # [5]) = (Inr None, [5])
   \<and> scan bytesio_read (Suc 1) 2 ([7, 7] @ 0 # [5]) = scan bytesio_read 1 2 [5]
   \<and> py_int ''0'' = Inr 0
   \<and> fst (scan bytesio_read 10 0 [0, 0, 0, 0, 0, 0, 0, 0, 0, 0]) = Inr None
   \<and> fetch_metadata bytesio_read
        (Inr \<lparr>headers = [''icy-metaint'' \<mapsto> ''0''], raw = [0, 0, 0, 0, 0, 0, 0, 0, 0, 0]\<rparr>) = None
   \<and> run bytesio_read
        [(Inr \<lparr>headers = [''icy-metaint'' \<mapsto> ''0''], raw = [0, 0, 0, 0, 0, 0, 0, 0, 0, 0]\<rparr>,
          Inr 200)]
        \<lparr>last_track = Some \<lparr>artist = ascii ''A'', track = ascii ''B''\<rparr>\<rparr>
       = (\<lparr>last_track = Some \<lparr>artist = ascii ''A'', track = ascii ''B''\<rparr>\<rparr>, [None])"
proof -
  define r :: "byte list response"
    where "r = \<lparr>headers = [''icy-metaint'' \<mapsto> ''0''], raw = [0, 0, 0, 0, 0, 0, 0, 0, 0, 0]\<rparr>"
  define self where "self = \<lparr>last_track = Some \<lparr>artist = ascii ''A'', track = ascii ''B''\<rparr>\<rparr>"
  have reads: "bytesio_read 2 ([7, 7] @ 0 # [5]) = (Inr [7, 7], 0 # [5])"
    "bytesio_read 1 (0 # [5]) = (Inr [0], [5])"
    by (simp_all add: bytesio_read_def)
  have interval: "py_int ''0'' = Inr 0" by (rule py_int_accepts)
  have zero: "read_block bytesio_read 0 (0 # rest) = (Inr None, rest)" for rest
    using bytesio_zero [of 0 "[]" rest] by simp
  have silent: "fst (scan bytesio_read 10 0 (raw r)) = Inr None"
    by (simp add: r_def scan_skip zero)
  have hs: "headers r ''icy-metaint'' = Some ''0''" "headers r ''icy-name'' = None"
    by (simp_all add: r_def)
  note window = zero_length_window [of bytesio_read 2 "[7, 7] @ 0 # [5]" "[7, 7]" "0 # [5]" "[5]" 1
      "[]" "[]" "Inr r" "Inr 200" self r "''0''"]
  note session = zero_length_window [of bytesio_read 0 "raw r" "[]" "[]" "[]" 0
      "[]" "[]" "Inr r" "Inr 200" self r "''0''"]
  from window [THEN conjunct1] reads
  have first: "read_block bytesio_read 2 ([7, 7] @ 0 # [5]) = (Inr None, [5])
      \<and> scan bytesio_read (Suc 1) 2 ([7, 7] @ 0 # [5]) = scan bytesio_read 1 2 [5]"
    by simp
  from session [THEN conjunct2, THEN conjunct2, THEN conjunct2, THEN conjunct1] hs interval silent
  have none: "fetch_metadata bytesio_read (Inr r) = None" by blast
  with session [THEN conjunct2, THEN conjunct2, THEN conjunct1]
  have "run bytesio_read [(Inr r, Inr 200)] self = (self, [None])" by simp
  with first reads interval silent none show ?thesis
    unfolding r_def self_def by simp
qed

text \<open>
  Ten windows with a zero length byte each, from a station that sends its
  name: the fetch returns the placeholder, and the cycle submits it and
  stores it over the track that was stored before.
\<close>

theorem empty_windows_placeholder_counterexample:
  "fetch_metadata bytesio_read
     (Inr \<lparr>headers = [''icy-metaint'' \<mapsto> ''0'', ''icy-name'' \<mapsto> ''R''],
           raw = [0, 0, 0, 0, 0, 0, 0, 0, 0, 0]\<rparr>)
     = Some \<lparr>artist = ascii ''R'', track = ascii ''Current Track''\<rparr>
   \<and> run bytesio_read
        [(Inr \<lparr>headers = [''icy-metaint'' \<mapsto> ''0'', ''icy-name'' \<mapsto> ''R''],
               raw = [0, 0, 0, 0, 0, 0, 0, 0, 0, 0]\<rparr>, Inr 200)]
        \<lparr>last_track = Some \<lparr>artist = ascii ''A'', track = ascii ''B''\<rparr>\<rparr>
       = (\<lparr>last_track = Some \<lparr>artist = ascii ''R'', track = ascii ''Current Track''\<rparr>\<rparr>,
          [Some \<lparr>artist = ascii ''R'', track = ascii ''Current Track''\<rparr>])"
proof -
  have interval: "py_int ''0'' = Inr 0" by (rule py_int_accepts)
  have zero: "read_block bytesio_read 0 (0 # rest) = (Inr None, rest)" for rest
    using bytesio_zero [of 0 "[]" rest] by simp
  have silent: "scan bytesio_read 10 0 [0, 0, 0, 0, 0, 0, 0, 0, 0, 0] = (Inr None, [])"
    by (simp add: scan_skip zero)
  have got: "fetch_metadata bytesio_read
     (Inr \<lparr>headers = [''icy-metaint'' \<mapsto> ''0'', ''icy-name'' \<mapsto> ''R''],
           raw = [0, 0, 0, 0, 0, 0, 0, 0, 0, 0]\<rparr>)
     = Some \<lparr>artist = ascii ''R'', track = ascii ''Current Track''\<rparr>"
    using interval silent
    by (simp add: fetch_metadata_def header_fallback_def latin1_def ascii_def)
  have differ: "\<lparr>artist = ascii ''R'', track = ascii ''Current Track''\<rparr>
                  \<noteq> \<lparr>artist = ascii ''A'', track = ascii ''B''\<rparr>"
    by (simp add: ascii_def)
  show ?thesis
    unfolding run.simps got using differ
    by (simp add: observe_def submit_to_listenbrainz_def)
qed

text \<open>
  C2, as the code has it. A short read is not detected and there is no
  stream-ended error: the code never compares what a read returned with what
  it asked for. What the audio skip returned is not looked at. When the read
  of the length byte returns nothing, the window ends without a block and
  without an exception. Whatever the read of the block returns, many bytes or
  few, is decoded and normalised like a whole block, so a title found in a
  truncated block is returned. A window raises only when one of its reads
  raises, or when the read of one byte returns more than one; then
  \<^verbatim>\<open>fetch_metadata\<close> returns \<^verbatim>\<open>None\<close>, as for every exception. Over a
  body that ends cleanly no read raises: when it ends during the audio skip
  or before the length byte, the scan finds nothing and \<^verbatim>\<open>fetch_metadata\<close>
  returns what the headers give.
\<close>

theorem short_read_not_detected:
  "(read metaint s = (Inr audio, s1) \<and> read 1 s1 = (Inr [], s2) \<longrightarrow>
       read_block read metaint s = (Inr None, s2))
   \<and> (read metaint s = (Inr audio, s1) \<and> read 1 s1 = (Inr [lb], s2) \<and> 0 < lb
        \<and> read (uint lb * 16) s2 = (Inr bytes, s3) \<longrightarrow>
       read_block read metaint s = (Inr (Some (utf8_decode_ignore bytes)), s3)
     \<and> (\<forall>t. normalize (utf8_decode_ignore bytes) = Inr (Some t) \<longrightarrow>
            scan read (Suc n) metaint s = (Inr (Some t), s3)))
   \<and> (fst (read_block read metaint s) = Inl e \<longleftrightarrow>
         fst (read metaint s) = Inl e
       \<or> (\<exists>audio. fst (read metaint s) = Inr audio
             \<and> fst (read 1 (snd (read metaint s))) = Inl e)
       \<or> (\<exists>audio bs. fst (read metaint s) = Inr audio
             \<and> fst (read 1 (snd (read metaint s))) = Inr bs \<and> 2 \<le> length bs \<and> e = TypeError)
       \<or> (\<exists>audio lb. fst (read metaint s) = Inr audio
             \<and> fst (read 1 (snd (read metaint s))) = Inr [lb] \<and> 0 < lb
             \<and> fst (read (uint lb * 16) (snd (read 1 (snd (read metaint s))))) = Inl e))
   \<and> (headers r ''icy-metaint'' = Some v \<and> py_int v = Inr metaint
        \<and> fst (scan read 10 metaint (raw r)) = Inl e \<longrightarrow>
       fetch_metadata read (Inr r) = None)
   \<and> (0 \<le> metaint \<and> metaint < 2 ^ 63 \<and> length body \<le> nat metaint \<longrightarrow>
       fst (scan bytesio_read n metaint body) = Inr None)
   \<and> (headers r' ''icy-metaint'' = Some v \<and> py_int v = Inr metaint
        \<and> 0 \<le> metaint \<and> metaint < 2 ^ 63 \<and> length (raw r') \<le> nat metaint \<longrightarrow>
       fetch_metadata bytesio_read (Inr r') = header_fallback r')
   \<and> (0 \<le> metaint \<and> metaint < 2 ^ 63 \<and> length filler = nat metaint \<and> 0 < lb
        \<and> length data < 16 * unat lb \<longrightarrow>
       read_block bytesio_read metaint (filler @ lb # data)
         = (Inr (Some (utf8_decode_ignore data)), [])
     \<and> (\<forall>t. normalize (utf8_decode_ignore data) = Inr (Some t) \<longrightarrow>
            scan bytesio_read (Suc n) metaint (filler @ lb # data) = (Inr (Some t), [])))"
proof -
  have a: "read metaint s = (Inr audio, s1) \<and> read 1 s1 = (Inr [], s2) \<longrightarrow>
       read_block read metaint s = (Inr None, s2)"
    using read_block_no_length [of "read" metaint s audio s1 s2] by simp
  have b: "read metaint s = (Inr audio, s1) \<and> read 1 s1 = (Inr [lb], s2) \<and> 0 < lb
        \<and> read (uint lb * 16) s2 = (Inr bytes, s3) \<longrightarrow>
       read_block read metaint s = (Inr (Some (utf8_decode_ignore bytes)), s3)
     \<and> (\<forall>t. normalize (utf8_decode_ignore bytes) = Inr (Some t) \<longrightarrow>
            scan read (Suc n) metaint s = (Inr (Some t), s3))"
    using read_block_window [of "read" metaint s audio s1 lb s2 bytes s3] by simp
  note c = read_block_raises [of "read" metaint s e]
  have d: "headers r ''icy-metaint'' = Some v \<and> py_int v = Inr metaint
        \<and> fst (scan read 10 metaint (raw r)) = Inl e \<longrightarrow>
       fetch_metadata read (Inr r) = None"
    by (simp add: fetch_metadata_def)
  have ended: "0 \<le> metaint \<and> metaint < 2 ^ 63 \<and> length b \<le> nat metaint \<longrightarrow>
       fst (scan bytesio_read k metaint b) = Inr None" for k b
    using bytesio_scan_short [of metaint b k] by simp
  have f: "headers r' ''icy-metaint'' = Some v \<and> py_int v = Inr metaint
        \<and> 0 \<le> metaint \<and> metaint < 2 ^ 63 \<and> length (raw r') \<le> nat metaint \<longrightarrow>
       fetch_metadata bytesio_read (Inr r') = header_fallback r'"
    using ended [of "raw r'" 10] by (simp add: fetch_metadata_def)
  have g: "0 \<le> metaint \<and> metaint < 2 ^ 63 \<and> length filler = nat metaint \<and> 0 < lb
        \<and> length data < 16 * unat lb \<longrightarrow>
       read_block bytesio_read metaint (filler @ lb # data)
         = (Inr (Some (utf8_decode_ignore data)), [])
     \<and> (\<forall>t. normalize (utf8_decode_ignore data) = Inr (Some t) \<longrightarrow>
            scan bytesio_read (Suc n) metaint (filler @ lb # data) = (Inr (Some t), []))"
    using bytesio_window [of metaint filler lb data "[]"] by simp
  from a b c d ended [of body n] f g show ?thesis by (intro conjI) assumption+
qed

theorem short_read_not_detected_witness:
  "bytesio_read 1 [7] = (Inr [7], []) \<and> bytesio_read 1 [] = (Inr [], [])
   \<and> read_block bytesio_read 1 [7] = (Inr None, [])
   \<and> bytesio_read 1 ([7] @ 2 # ascii_bytes ''StreamTitle='A - B'')
       = (Inr [7], 2 # ascii_bytes ''StreamTitle='A - B'')
   \<and> bytesio_read 1 (2 # ascii_bytes ''StreamTitle='A - B'')
       = (Inr [2], ascii_bytes ''StreamTitle='A - B'')
   \<and> (0 :: byte) < 2
   \<and> bytesio_read (uint (2 :: byte) * 16) (ascii_bytes ''StreamTitle='A - B'')
       = (Inr (ascii_bytes ''StreamTitle='A - B''), [])
   \<and> length (ascii_bytes ''StreamTitle='A - B'') < 16 * unat (2 :: byte)
   \<and> read_block bytesio_read 1 ([7] @ 2 # ascii_bytes ''StreamTitle='A - B'')
       = (Inr (Some (ascii ''StreamTitle='A - B'')), [])
   \<and> scan bytesio_read (Suc 3) 1 ([7] @ 2 # ascii_bytes ''StreamTitle='A - B'')
       = (Inr (Some \<lparr>artist = ascii ''A'', track = ascii ''B''\<rparr>), [])
   \<and> py_int ''1'' = Inr 1
   \<and> fetch_metadata bytesio_read (Inr \<lparr>headers = [''icy-metaint'' \<mapsto> ''1''], raw = [7]\<rparr>) = None
   \<and> py_int ''9223372036854775808'' = Inr 9223372036854775808
   \<and> fst (scan bytesio_read 10 9223372036854775808 [7]) = Inl OverflowError
   \<and> fetch_metadata bytesio_read
        (Inr \<lparr>headers = [''icy-metaint'' \<mapsto> ''9223372036854775808'', ''icy-name'' \<mapsto> ''R''],
              raw = [7]\<rparr>) = None"
proof -
  define block where "block = ascii_bytes ''StreamTitle='A - B''"
  define r :: "byte list response"
    where "r = \<lparr>headers = [''icy-metaint'' \<mapsto> ''1''], raw = [7]\<rparr>"
  define q :: "byte list response"
    where "q = \<lparr>headers = [''icy-metaint'' \<mapsto> ''9223372036854775808'', ''icy-name'' \<mapsto> ''R''],
                raw = [7]\<rparr>"
  have short: "length block < 16 * unat (2 :: byte)"
    by (simp add: block_def ascii_bytes_def)
  have pos: "(0 :: byte) < 2" by simp
  have reads: "bytesio_read 1 [7] = (Inr [7], [])" "bytesio_read 1 [] = (Inr [], [])"
    "bytesio_read 1 ([7] @ 2 # block) = (Inr [7], 2 # block)"
    "bytesio_read 1 (2 # block) = (Inr [2], block)"
    by (simp_all add: bytesio_read_def)
  have data: "bytesio_read (uint (2 :: byte) * 16) block = (Inr block, [])"
    using short by (simp add: bytesio_read_def)
  have decoded: "utf8_decode_ignore block = ascii ''StreamTitle='A - B''"
    by (simp add: block_def ascii_bytes_def ascii_def)
  have norm: "normalize (ascii ''StreamTitle='A - B'')
                = Inr (Some \<lparr>artist = ascii ''A'', track = ascii ''B''\<rparr>)"
    by (simp add: eval_defs)
  have one: "py_int ''1'' = Inr 1" and big: "py_int ''9223372036854775808'' = Inr 9223372036854775808"
    by (rule py_int_accepts)+
  have over: "fst (scan bytesio_read 10 9223372036854775808 [7]) = Inl OverflowError"
    by (simp add: bytesio_scan_overflow)
  have hr: "headers r ''icy-metaint'' = Some ''1''" "raw r = [7]" "header_fallback r = None"
    and hq: "headers q ''icy-metaint'' = Some ''9223372036854775808''" "raw q = [7]"
    by (simp_all add: r_def q_def header_fallback_def)
  note ended = short_read_not_detected [where read = bytesio_read and metaint = 1 and s = "[7]"
      and audio = "[7]" and ?s1.0 = "[]" and ?s2.0 = "[]"]
  note cut = short_read_not_detected [where read = bytesio_read and metaint = 1
      and s = "[7] @ 2 # block" and audio = "[7]" and ?s1.0 = "2 # block" and ?s2.0 = block
      and lb = 2 and bytes = block and ?s3.0 = "[]" and n = 3 and v = "''1''" and r' = r]
  note raised = short_read_not_detected [where read = bytesio_read
      and metaint = 9223372036854775808 and e = OverflowError and r = q
      and v = "''9223372036854775808''"]
  from ended [THEN conjunct1] reads
  have w1: "read_block bytesio_read 1 [7] = (Inr None, [])" by simp
  from cut [THEN conjunct2, THEN conjunct1] reads data pos
  have w2: "read_block bytesio_read 1 ([7] @ 2 # block) = (Inr (Some (utf8_decode_ignore block)), [])"
    and w3: "\<forall>t. normalize (utf8_decode_ignore block) = Inr (Some t) \<longrightarrow>
            scan bytesio_read (Suc 3) 1 ([7] @ 2 # block) = (Inr (Some t), [])"
    by simp_all
  from w3 norm have w4: "scan bytesio_read (Suc 3) 1 ([7] @ 2 # block)
       = (Inr (Some \<lparr>artist = ascii ''A'', track = ascii ''B''\<rparr>), [])"
    unfolding decoded by simp
  from cut [THEN conjunct2, THEN conjunct2, THEN conjunct2, THEN conjunct2, THEN conjunct2,
      THEN conjunct1] hr one
  have w5: "fetch_metadata bytesio_read (Inr r) = None" by simp
  from raised [THEN conjunct2, THEN conjunct2, THEN conjunct2, THEN conjunct1] hq big over
  have w6: "fetch_metadata bytesio_read (Inr q) = None" by simp
  from reads data pos short w1 w2 w4 w5 w6 one big over show ?thesis
    unfolding decoded unfolding block_def r_def q_def by simp
qed

text \<open>
  A block announced as 32 bytes of which 18 arrive before the body ends: the
  truncated text is parsed and its title returned.
\<close>

theorem truncated_block_returned_counterexample:
  "py_int ''1'' = Inr 1
   \<and> length (ascii_bytes ''StreamTitle='A - B'') < 16 * unat (2 :: byte)
   \<and> fetch_metadata bytesio_read
        (Inr \<lparr>headers = [''icy-metaint'' \<mapsto> ''1''],
              raw = [0] @ 2 # ascii_bytes ''StreamTitle='A - B''\<rparr>)
       = Some \<lparr>artist = ascii ''A'', track = ascii ''B''\<rparr>"
proof -
  have interval: "py_int ''1'' = Inr 1" by (rule py_int_accepts)
  have short: "length (ascii_bytes ''StreamTitle='A - B'') < 16 * unat (2 :: byte)"
    by (simp add: ascii_bytes_def)
  have decoded: "utf8_decode_ignore (ascii_bytes ''StreamTitle='A - B'') = ascii ''StreamTitle='A - B''"
    by (simp add: ascii_bytes_def ascii_def)
  have block: "read_block bytesio_read 1 ([0] @ 2 # ascii_bytes ''StreamTitle='A - B'')
                 = (Inr (Some (ascii ''StreamTitle='A - B'')), [])"
    using bytesio_window [of 1 "[0]" 2 "ascii_bytes ''StreamTitle='A - B''" "[]"] short decoded
    by simp
  have norm: "normalize (ascii ''StreamTitle='A - B'')
                = Inr (Some \<lparr>artist = ascii ''A'', track = ascii ''B''\<rparr>)"
    by (simp add: eval_defs)
  have "scan bytesio_read 10 1 ([0] @ 2 # ascii_bytes ''StreamTitle='A - B'')
          = (Inr (Some \<lparr>artist = ascii ''A'', track = ascii ''B''\<rparr>), [])"
    using block norm by (rule scan_found) simp
  then show ?thesis using interval short by (simp add: fetch_metadata_def)
qed

text \<open>
  C9, as the code has it. Decoding never fails: whatever bytes the read of
  the block returned, the window yields their text, and over a body held in
  memory every window ends without an exception, whatever the bytes are.
  Invalid bytes are left out of the text and nothing is put in their place.
  The text consists of scalar values whose encodings occur, in this order,
  among the bytes; and the replacement character U+FFFD is in the text only
  when the input itself holds its encoding, the three bytes EF BF BD in a
  row. A byte sequence made of ASCII bytes and of bytes that can never start
  a character (0x80..0xC1, 0xF5..0xFF) decodes to its ASCII bytes alone.
\<close>

theorem invalid_bytes_dropped:
  "(read metaint s = (Inr audio, s1) \<and> read 1 s1 = (Inr [lb], s2) \<and> 0 < lb
      \<and> read (uint lb * 16) s2 = (Inr bytes, s3) \<longrightarrow>
     read_block read metaint s = (Inr (Some (utf8_decode_ignore bytes)), s3))
   \<and> (- (2 ^ 63) \<le> metaint \<and> metaint < 2 ^ 63 \<longrightarrow>
        (\<exists>blk body'. read_block bytesio_read metaint body = (Inr blk, body')))
   \<and> subseq (utf8_encode (utf8_decode_ignore bytes)) bytes
   \<and> (\<forall>c \<in> set (utf8_decode_ignore bytes). is_scalar c)
   \<and> (0xFFFD \<in> set (utf8_decode_ignore bytes) \<longrightarrow> sublist [0xEF, 0xBF, 0xBD] bytes)
   \<and> ((\<forall>b \<in> set bytes. b < 0x80 \<or> (0x80 \<le> b \<and> b < 0xC2) \<or> 0xF5 \<le> b) \<longrightarrow>
        utf8_decode_ignore bytes = map unat (filter (\<lambda>b. b < 0x80) bytes))"
proof -
  have a: "read metaint s = (Inr audio, s1) \<and> read 1 s1 = (Inr [lb], s2) \<and> 0 < lb
      \<and> read (uint lb * 16) s2 = (Inr bytes, s3) \<longrightarrow>
     read_block read metaint s = (Inr (Some (utf8_decode_ignore bytes)), s3)"
    using read_block_window [of "read" metaint s audio s1 lb s2 bytes s3] by simp
  have b: "- (2 ^ 63) \<le> metaint \<and> metaint < 2 ^ 63 \<longrightarrow>
        (\<exists>blk body'. read_block bytesio_read metaint body = (Inr blk, body'))"
    using bytesio_block_total [of metaint body] by simp
  have c: "subseq (utf8_encode (utf8_decode_ignore bytes)) bytes
    \<and> (\<forall>c \<in> set (utf8_decode_ignore bytes). is_scalar c)"
    using utf8_decode_kept [of bytes] by simp
  have d: "0xFFFD \<in> set (utf8_decode_ignore bytes) \<longrightarrow> sublist [0xEF, 0xBF, 0xBD] bytes"
    using utf8_decode_no_replacement [of bytes] by simp
  have e: "(\<forall>b \<in> set bytes. b < 0x80 \<or> (0x80 \<le> b \<and> b < 0xC2) \<or> 0xF5 \<le> b) \<longrightarrow>
        utf8_decode_ignore bytes = map unat (filter (\<lambda>b. b < 0x80) bytes)"
    using utf8_decode_drops_invalid [of bytes] by simp
  from a b c [THEN conjunct1] c [THEN conjunct2] d e show ?thesis
    by (intro conjI) assumption+
qed

theorem invalid_bytes_dropped_witness:
  "utf8_decode_ignore [0x41, 0x80, 0xFF, 0x42] = [0x41, 0x42]
   \<and> subseq (utf8_encode [0x41, 0x42]) [0x41, 0x80, 0xFF, 0x42]
   \<and> utf8_decode_ignore [0xEF, 0xBF, 0xBD] = [0xFFFD]
   \<and> sublist [0xEF, 0xBF, 0xBD] [0xEF, 0xBF, 0xBD :: byte]
   \<and> bytesio_read 0 [1, 0x41, 0x80, 0xFF, 0x42] = (Inr [], [1, 0x41, 0x80, 0xFF, 0x42])
   \<and> bytesio_read 1 [1, 0x41, 0x80, 0xFF, 0x42] = (Inr [1], [0x41, 0x80, 0xFF, 0x42])
   \<and> (0 :: byte) < 1
   \<and> bytesio_read (uint (1 :: byte) * 16) [0x41, 0x80, 0xFF, 0x42]
       = (Inr [0x41, 0x80, 0xFF, 0x42], [])
   \<and> read_block bytesio_read 0 [1, 0x41, 0x80, 0xFF, 0x42] = (Inr (Some [0x41, 0x42]), [])
   \<and> - (2 ^ 63) \<le> (0 :: int) \<and> (0 :: int) < 2 ^ 63
   \<and> (\<exists>blk body'. read_block bytesio_read 0 [1, 0xFF, 0xFE] = (Inr blk, body'))"
proof -
  have d1: "utf8_decode_ignore [0x41, 0x80, 0xFF, 0x42] = [0x41, 0x42]"
    and d2: "utf8_decode_ignore [0xEF, 0xBF, 0xBD] = [0xFFFD]"
    by (simp_all add: is_continuation_def)
  have reads: "bytesio_read 0 [1, 0x41, 0x80, 0xFF, 0x42] = (Inr [], [1, 0x41, 0x80, 0xFF, 0x42])"
    "bytesio_read 1 [1, 0x41, 0x80, 0xFF, 0x42] = (Inr [1], [0x41, 0x80, 0xFF, 0x42])"
    "bytesio_read (uint (1 :: byte) * 16) [0x41, 0x80, 0xFF, 0x42]
       = (Inr [0x41, 0x80, 0xFF, 0x42], [])"
    by (simp_all add: bytesio_read_def)
  have pos: "(0 :: byte) < 1" by simp
  have range: "- (2 ^ 63) \<le> (0 :: int)" "(0 :: int) < 2 ^ 63" by simp_all
  note noisy = invalid_bytes_dropped [where read = bytesio_read and metaint = 0
      and s = "[1, 0x41, 0x80, 0xFF, 0x42]" and audio = "[]"
      and ?s1.0 = "[1, 0x41, 0x80, 0xFF, 0x42]" and lb = 1 and ?s2.0 = "[0x41, 0x80, 0xFF, 0x42]"
      and bytes = "[0x41, 0x80, 0xFF, 0x42]" and ?s3.0 = "[]" and body = "[1, 0xFF, 0xFE]"]
  note replaced = invalid_bytes_dropped [where read = bytesio_read and metaint = 0
      and bytes = "[0xEF, 0xBF, 0xBD]"]
  from noisy [THEN conjunct1] reads pos
  have w1: "read_block bytesio_read 0 [1, 0x41, 0x80, 0xFF, 0x42] = (Inr (Some [0x41, 0x42]), [])"
    unfolding d1 by simp
  from noisy [THEN conjunct2, THEN conjunct1] range
  have w2: "\<exists>blk body'. read_block bytesio_read 0 [1, 0xFF, 0xFE] = (Inr blk, body')"
    by simp
  from noisy [THEN conjunct2, THEN conjunct2, THEN conjunct1]
  have w3: "subseq (utf8_encode [0x41, 0x42]) [0x41, 0x80, 0xFF, 0x42]"
    unfolding d1 .
  from replaced [THEN conjunct2, THEN conjunct2, THEN conjunct2, THEN conjunct2, THEN conjunct1]
  have w4: "sublist [0xEF, 0xBF, 0xBD] [0xEF, 0xBF, 0xBD :: byte]"
    unfolding d2 by simp
  from d1 d2 reads pos range w1 w2 w3 w4 show ?thesis by (intro conjI) assumption+
qed

text \<open>
  The byte 0xFF between \<open>A\<close> and \<open>B\<close> disappears; the text has no
  replacement character U+FFFD.
\<close>

theorem invalid_byte_dropped_counterexample:
  "utf8_decode_ignore [0x41, 0xFF, 0x42] = [0x41, 0x42]
   \<and> 0xFFFD \<notin> set (utf8_decode_ignore [0x41, 0xFF, 0x42])"
  by simp




section \<open>Normalising a block\<close>

text \<open>
  C3. Splitting the title. When the title is \<open>a\<close>, the separator
  \<^verbatim>\<open>" - "\<close> and \<open>b\<close>, and no occurrence of the separator starts earlier,
  the result is the stripped \<open>a\<close> as artist and the stripped \<open>b\<close> as track.
  When the title has no separator the artist is \<^verbatim>\<open>Unknown Artist\<close> and the
  track is the stripped title. Stripping removes white space at both ends and
  nothing else: what is removed is white space, and what is left is empty or
  begins and ends with a character that is not white space.
\<close>

theorem title_split_first_separator:
  "(title = a @ ascii '' - '' @ b
      \<and> (\<forall>a' b'. title = a' @ ascii '' - '' @ b' \<longrightarrow> length a \<le> length a')
    \<longrightarrow> split_title title = Inr \<lparr>artist = py_strip a, track = py_strip b\<rparr>)
   \<and> (\<not> (\<exists>a b. title = a @ ascii '' - '' @ b)
    \<longrightarrow> split_title title = Inr \<lparr>artist = ascii ''Unknown Artist'', track = py_strip title\<rparr>)
   \<and> (\<forall>s. \<exists>l r. s = l @ py_strip s @ r
         \<and> (\<forall>c \<in> set l. is_space c) \<and> (\<forall>c \<in> set r. is_space c)
         \<and> (py_strip s = [] \<or> (\<not> is_space (hd (py_strip s)) \<and> \<not> is_space (last (py_strip s)))))"
proof -
  have ne: "ascii '' - '' \<noteq> []" by (simp add: ascii_def)
  have "split_title title = Inr \<lparr>artist = py_strip a, track = py_strip b\<rparr>"
    if eq: "title = a @ ascii '' - '' @ b"
      and first: "\<forall>a' b'. title = a' @ ascii '' - '' @ b' \<longrightarrow> length a \<le> length a'"
  proof -
    from first have "\<not> py_in (ascii '' - '') (a @ butlast (ascii '' - ''))"
      unfolding eq by (rule leftmost_no_earlier [OF ne])
    from py_find_leftmost [OF ne this, of b] eq
    have "py_find (ascii '' - '') title = Some (a, b)" by simp
    then show ?thesis by (rule split_title_found)
  qed
  moreover have "split_title title = Inr \<lparr>artist = ascii ''Unknown Artist'', track = py_strip title\<rparr>"
    if "\<not> (\<exists>a b. title = a @ ascii '' - '' @ b)"
    using that by (simp add: split_title_def py_in_iff)
  ultimately show ?thesis using py_strip_trims by blast
qed

theorem title_split_first_separator_witness:
  "ascii ''A - B - C'' = ascii ''A'' @ ascii '' - '' @ ascii ''B - C''
   \<and> split_title (ascii ''A - B - C'') = Inr \<lparr>artist = ascii ''A'', track = ascii ''B - C''\<rparr>
   \<and> \<not> (\<exists>a b. ascii ''Just A Title'' = a @ ascii '' - '' @ b)
   \<and> split_title (ascii ''Just A Title'')
       = Inr \<lparr>artist = ascii ''Unknown Artist'', track = ascii ''Just A Title''\<rparr>"
proof -
  have eq: "ascii ''A - B - C'' = ascii ''A'' @ ascii '' - '' @ ascii ''B - C''"
    by (simp add: ascii_def)
  have first: "\<forall>a' b'. ascii ''A - B - C'' = a' @ ascii '' - '' @ b' \<longrightarrow> length (ascii ''A'') \<le> length a'"
  proof (intro allI impI)
    fix a' b' :: pystr
    assume "ascii ''A - B - C'' = a' @ ascii '' - '' @ b'"
    then have "a' \<noteq> []" by (auto simp: ascii_def)
    then show "length (ascii ''A'') \<le> length a'" by (cases a') (simp_all add: ascii_def)
  qed
  have absent: "\<not> (\<exists>a b. ascii ''Just A Title'' = a @ ascii '' - '' @ b)"
    unfolding py_in_iff [symmetric] by (simp add: ascii_def)
  have strip: "py_strip (ascii ''A'') = ascii ''A''" "py_strip (ascii ''B - C'') = ascii ''B - C''"
    "py_strip (ascii ''Just A Title'') = ascii ''Just A Title''"
    by (simp_all add: py_strip_def ascii_def is_space_def)
  from title_split_first_separator [of "ascii ''A - B - C''" "ascii ''A''" "ascii ''B - C''"]
    title_split_first_separator [of "ascii ''Just A Title''"]
    eq first absent strip
  show ?thesis by simp
qed

text \<open>
  The two blocks of the specification's examples, and the empty block, which
  makes no branch return.
\<close>

lemma normalize_artist_and_song:
  "normalize (ascii ''StreamTitle='Artist X - Song Y';'')
     = Inr (Some \<lparr>artist = ascii ''Artist X'', track = ascii ''Song Y''\<rparr>)"
  by (simp add: eval_defs)

lemma normalize_title_only:
  "normalize (ascii ''StreamTitle='Just A Title';'')
     = Inr (Some \<lparr>artist = ascii ''Unknown Artist'', track = ascii ''Just A Title''\<rparr>)"
  by (simp add: eval_defs)

lemma normalize_empty_block: "normalize [] = Inr None"
  by (simp add: normalize_def)

text \<open>
  C6. A block without the marker. A non-empty block in which \<^verbatim>\<open>StreamTitle=\<close>
  does not occur makes no branch return and raises nothing; the loop goes on
  with the next window, whatever the transport.
\<close>

theorem block_without_marker:
  assumes "metadata \<noteq> []"
    and "\<not> (\<exists>a b. metadata = a @ ascii ''StreamTitle='' @ b)"
  shows "normalize metadata = Inr None
       \<and> (read_block read metaint s = (Inr (Some metadata), s') \<longrightarrow>
            scan read (Suc n) metaint s = scan read n metaint s')"
proof -
  from assms(2) have "\<not> py_in (ascii ''StreamTitle='') metadata"
    by (simp add: py_in_iff)
  with assms(1) have "normalize metadata = Inr None" by (simp add: normalize_def)
  then show ?thesis by simp
qed

theorem block_without_marker_witness:
  "ascii ''StreamUrl='h/p';'' \<noteq> []
   \<and> \<not> (\<exists>a b. ascii ''StreamUrl='h/p';'' = a @ ascii ''StreamTitle='' @ b)
   \<and> normalize (ascii ''StreamUrl='h/p';'') = Inr None
   \<and> read_block bytesio_read 0 (1 # ascii_bytes ''StreamUrl='h/p';'' @ [5])
       = (Inr (Some (ascii ''StreamUrl='h/p';'')), [5])
   \<and> scan bytesio_read (Suc 0) 0 (1 # ascii_bytes ''StreamUrl='h/p';'' @ [5]) = (Inr None, [5])"
proof -
  have h1: "ascii ''StreamUrl='h/p';'' \<noteq> []" by (simp add: ascii_def)
  have h2: "\<not> (\<exists>a b. ascii ''StreamUrl='h/p';'' = a @ ascii ''StreamTitle='' @ b)"
    unfolding py_in_iff [symmetric] by (simp add: ascii_def)
  have decoded: "utf8_decode_ignore (ascii_bytes ''StreamUrl='h/p';'') = ascii ''StreamUrl='h/p';''"
    by (simp add: ascii_bytes_def ascii_def)
  have block: "read_block bytesio_read 0 (1 # ascii_bytes ''StreamUrl='h/p';'' @ [5])
                 = (Inr (Some (ascii ''StreamUrl='h/p';'')), [5])"
    using bytesio_window [of 0 "[]" 1 "ascii_bytes ''StreamUrl='h/p';''" "[5]"] decoded
    by (simp add: ascii_bytes_def)
  from block_without_marker [OF h1 h2, of bytesio_read 0
      "1 # ascii_bytes ''StreamUrl='h/p';'' @ [5]" "[5]" 0]
    h1 h2 block
  show ?thesis by simp
qed

text \<open>
  C7, as the code has it. \<^verbatim>\<open>fetch_metadata\<close> returns a dictionary in two ways
  only: the scan returned it, or it is the station placeholder (the
  \<^verbatim>\<open>icy-name\<close> header as artist, \<^verbatim>\<open>Current Track\<close> as track). The
  placeholder needs the \<^verbatim>\<open>icy-name\<close> header and one of two things: no
  \<^verbatim>\<open>icy-metaint\<close> header, or an \<^verbatim>\<open>icy-metaint\<close> header that \<^verbatim>\<open>int\<close>
  accepts and a scan of ten windows that ended without a title and without
  an exception. It returns \<^verbatim>\<open>None\<close> in three ways only: \<^verbatim>\<open>int\<close> refuses
  the \<^verbatim>\<open>icy-metaint\<close> header; a read of the scan raises; or there is no
  \<^verbatim>\<open>icy-name\<close> header and the scan, if there was one, ended without a
  title.
\<close>

theorem fallback_after_scan_or_without_interval:
  "(fetch_metadata read (Inr r) = Some t \<longleftrightarrow>
      (\<exists>v metaint. headers r ''icy-metaint'' = Some v \<and> py_int v = Inr metaint
         \<and> fst (scan read 10 metaint (raw r)) = Inr (Some t))
    \<or> ((\<exists>name. headers r ''icy-name'' = Some name
           \<and> t = \<lparr>artist = latin1 name, track = ascii ''Current Track''\<rparr>)
       \<and> (headers r ''icy-metaint'' = None
           \<or> (\<exists>v metaint. headers r ''icy-metaint'' = Some v \<and> py_int v = Inr metaint
                 \<and> fst (scan read 10 metaint (raw r)) = Inr None))))
   \<and> (fetch_metadata read (Inr r) = None \<longleftrightarrow>
      (\<exists>v e. headers r ''icy-metaint'' = Some v \<and> py_int v = Inl e)
    \<or> (\<exists>v metaint e. headers r ''icy-metaint'' = Some v \<and> py_int v = Inr metaint
          \<and> fst (scan read 10 metaint (raw r)) = Inl e)
    \<or> (headers r ''icy-name'' = None
       \<and> (headers r ''icy-metaint'' = None
           \<or> (\<exists>v metaint. headers r ''icy-metaint'' = Some v \<and> py_int v = Inr metaint
                 \<and> fst (scan read 10 metaint (raw r)) = Inr None))))"
proof -
  have none: "header_fallback r = None \<longleftrightarrow> headers r ''icy-name'' = None"
    by (simp add: header_fallback_def)
  have a: "fetch_metadata read (Inr r) = Some t \<longleftrightarrow>
      (\<exists>v metaint. headers r ''icy-metaint'' = Some v \<and> py_int v = Inr metaint
         \<and> fst (scan read 10 metaint (raw r)) = Inr (Some t))
    \<or> ((\<exists>name. headers r ''icy-name'' = Some name
           \<and> t = \<lparr>artist = latin1 name, track = ascii ''Current Track''\<rparr>)
       \<and> (headers r ''icy-metaint'' = None
           \<or> (\<exists>v metaint. headers r ''icy-metaint'' = Some v \<and> py_int v = Inr metaint
                 \<and> fst (scan read 10 metaint (raw r)) = Inr None)))"
    unfolding header_fallback_iff [symmetric]
    by (auto simp: fetch_metadata_def split: option.splits sum.splits)
  have b: "fetch_metadata read (Inr r) = None \<longleftrightarrow>
      (\<exists>v e. headers r ''icy-metaint'' = Some v \<and> py_int v = Inl e)
    \<or> (\<exists>v metaint e. headers r ''icy-metaint'' = Some v \<and> py_int v = Inr metaint
          \<and> fst (scan read 10 metaint (raw r)) = Inl e)
    \<or> (headers r ''icy-name'' = None
       \<and> (headers r ''icy-metaint'' = None
           \<or> (\<exists>v metaint. headers r ''icy-metaint'' = Some v \<and> py_int v = Inr metaint
                 \<and> fst (scan read 10 metaint (raw r)) = Inr None)))"
    unfolding none [symmetric]
    by (auto simp: fetch_metadata_def split: option.splits sum.splits)
  from a b show ?thesis by (rule conjI)
qed

theorem fallback_after_scan_or_without_interval_witness:
  "fetch_metadata bytesio_read (Inr \<lparr>headers = [''icy-name'' \<mapsto> ''R''], raw = []\<rparr>)
     = Some \<lparr>artist = ascii ''R'', track = ascii ''Current Track''\<rparr>
   \<and> py_int [CHR ''2'', CHR 0x1F] = Inl ValueError
   \<and> fetch_metadata bytesio_read
        (Inr \<lparr>headers = [''icy-metaint'' \<mapsto> [CHR ''2'', CHR 0x1F], ''icy-name'' \<mapsto> ''R''],
              raw = [0x41, 0x41, 0]\<rparr>) = None
   \<and> py_int ''9223372036854775808'' = Inr 9223372036854775808
   \<and> fst (scan bytesio_read 10 9223372036854775808 [0x41, 0x41, 0]) = Inl OverflowError
   \<and> fetch_metadata bytesio_read
        (Inr \<lparr>headers = [''icy-metaint'' \<mapsto> ''9223372036854775808'', ''icy-name'' \<mapsto> ''R''],
              raw = [0x41, 0x41, 0]\<rparr>) = None"
proof -
  define p :: "byte list response" where "p = \<lparr>headers = [''icy-name'' \<mapsto> ''R''], raw = []\<rparr>"
  define q :: "byte list response"
    where "q = \<lparr>headers = [''icy-metaint'' \<mapsto> [CHR ''2'', CHR 0x1F], ''icy-name'' \<mapsto> ''R''],
                raw = [0x41, 0x41, 0]\<rparr>"
  define u :: "byte list response"
    where "u = \<lparr>headers = [''icy-metaint'' \<mapsto> ''9223372036854775808'', ''icy-name'' \<mapsto> ''R''],
                raw = [0x41, 0x41, 0]\<rparr>"
  have refused: "py_int [CHR ''2'', CHR 0x1F] = Inl ValueError" by (rule py_int_refuses)
  have big: "py_int ''9223372036854775808'' = Inr 9223372036854775808" by (rule py_int_accepts)
  have over: "fst (scan bytesio_read 10 9223372036854775808 [0x41, 0x41, 0]) = Inl OverflowError"
    by (simp add: bytesio_scan_overflow)
  have hp: "headers p ''icy-name'' = Some ''R''" "headers p ''icy-metaint'' = None"
    and hq: "headers q ''icy-metaint'' = Some [CHR ''2'', CHR 0x1F]"
    and hu: "headers u ''icy-metaint'' = Some ''9223372036854775808''" "raw u = [0x41, 0x41, 0]"
    by (simp_all add: p_def q_def u_def)
  have name: "latin1 ''R'' = ascii ''R''" by (simp add: latin1_def ascii_def)
  from fallback_after_scan_or_without_interval
      [of bytesio_read p "\<lparr>artist = ascii ''R'', track = ascii ''Current Track''\<rparr>",
       THEN conjunct1] hp name
  have w1: "fetch_metadata bytesio_read (Inr p)
              = Some \<lparr>artist = ascii ''R'', track = ascii ''Current Track''\<rparr>"
    by simp
  from fallback_after_scan_or_without_interval [of bytesio_read q, THEN conjunct2] hq refused
  have w2: "fetch_metadata bytesio_read (Inr q) = None" by simp
  from fallback_after_scan_or_without_interval [of bytesio_read u, THEN conjunct2] hu big over
  have w3: "fetch_metadata bytesio_read (Inr u) = None" by simp
  from w1 refused w2 big over w3 show ?thesis
    unfolding p_def q_def u_def by (intro conjI) assumption+
qed

text \<open>
  A session that declares the interval 1 and whose only window carries a zero
  length byte yields the placeholder.
\<close>

theorem fallback_with_interval_counterexample:
  "py_int ''1'' = Inr 1
   \<and> fetch_metadata bytesio_read
        (Inr \<lparr>headers = [''icy-metaint'' \<mapsto> ''1'', ''icy-name'' \<mapsto> ''R''], raw = [0x41, 0]\<rparr>)
       = Some \<lparr>artist = ascii ''R'', track = ascii ''Current Track''\<rparr>"
proof -
  have interval: "py_int ''1'' = Inr 1" by (rule py_int_accepts)
  have "read_block bytesio_read 1 ([0x41] @ 0 # []) = (Inr None, [])"
    by (rule bytesio_zero) simp_all
  then have "scan bytesio_read 10 1 [0x41, 0] = (Inr None, [])"
    by (simp add: scan_skip bytesio_scan_exhausted)
  then show ?thesis
    using interval by (simp add: fetch_metadata_def header_fallback_def latin1_def ascii_def)
qed

section \<open>Change detection and submission\<close>

text \<open>
  C4. The last track follows the submission. When the fetched track differs
  from the last one, \<^verbatim>\<open>last_track\<close> becomes that track exactly when
  \<^verbatim>\<open>submit_to_listenbrainz\<close> returns true; when it returns false the monitor is
  unchanged, so two cycles that fetch the same track, the first with a failed
  submission, both submit it.
\<close>

theorem last_track_transactional:
  assumes "last_track self \<noteq> Some t"
  shows "(last_track (fst (observe (Some t) posted self)) = Some t
            \<longleftrightarrow> submit_to_listenbrainz posted t)
       \<and> (\<not> submit_to_listenbrainz posted t \<longrightarrow> fst (observe (Some t) posted self) = self)
       \<and> (fetch_metadata read got1 = Some t \<and> fetch_metadata read got2 = Some t
            \<and> \<not> submit_to_listenbrainz posted1 t
          \<longrightarrow> snd (run read [(got1, posted1), (got2, posted2)] self) = [Some t, Some t])"
  using assms by (auto simp: observe_def Let_def split: prod.splits)

theorem last_track_transactional_witness:
  "last_track \<lparr>last_track = None\<rparr> \<noteq> Some \<lparr>artist = ascii ''R'', track = ascii ''Current Track''\<rparr>
   \<and> \<not> submit_to_listenbrainz (Inr 500) \<lparr>artist = ascii ''R'', track = ascii ''Current Track''\<rparr>
   \<and> fst (observe (Some \<lparr>artist = ascii ''R'', track = ascii ''Current Track''\<rparr>) (Inr 500)
            \<lparr>last_track = None\<rparr>) = \<lparr>last_track = None\<rparr>
   \<and> submit_to_listenbrainz (Inr 200) \<lparr>artist = ascii ''R'', track = ascii ''Current Track''\<rparr>
   \<and> last_track (fst (observe (Some \<lparr>artist = ascii ''R'', track = ascii ''Current Track''\<rparr>)
                         (Inr 200) \<lparr>last_track = None\<rparr>))
       = Some \<lparr>artist = ascii ''R'', track = ascii ''Current Track''\<rparr>
   \<and> fetch_metadata bytesio_read (Inr \<lparr>headers = [''icy-name'' \<mapsto> ''R''], raw = []\<rparr>)
       = Some \<lparr>artist = ascii ''R'', track = ascii ''Current Track''\<rparr>
   \<and> snd (run bytesio_read [(Inr \<lparr>headers = [''icy-name'' \<mapsto> ''R''], raw = []\<rparr>, Inr 500),
               (Inr \<lparr>headers = [''icy-name'' \<mapsto> ''R''], raw = []\<rparr>, Inr 200)]
              \<lparr>last_track = None\<rparr>)
       = [Some \<lparr>artist = ascii ''R'', track = ascii ''Current Track''\<rparr>,
          Some \<lparr>artist = ascii ''R'', track = ascii ''Current Track''\<rparr>]"
proof -
  have got: "fetch_metadata bytesio_read (Inr \<lparr>headers = [''icy-name'' \<mapsto> ''R''], raw = []\<rparr>)
               = Some \<lparr>artist = ascii ''R'', track = ascii ''Current Track''\<rparr>"
    by (simp add: fetch_metadata_def header_fallback_def latin1_def ascii_def)
  have failed: "\<not> submit_to_listenbrainz (Inr 500) \<lparr>artist = ascii ''R'', track = ascii ''Current Track''\<rparr>"
    and ok: "submit_to_listenbrainz (Inr 200) \<lparr>artist = ascii ''R'', track = ascii ''Current Track''\<rparr>"
    by (simp_all add: submit_to_listenbrainz_def)
  have new: "last_track \<lparr>last_track = None\<rparr> \<noteq> Some \<lparr>artist = ascii ''R'', track = ascii ''Current Track''\<rparr>"
    by simp
  from last_track_transactional [OF new, where posted = "Inr 500" and read = bytesio_read
      and ?got1.0 = "Inr \<lparr>headers = [''icy-name'' \<mapsto> ''R''], raw = []\<rparr>"
      and ?got2.0 = "Inr \<lparr>headers = [''icy-name'' \<mapsto> ''R''], raw = []\<rparr>"
      and ?posted1.0 = "Inr 500" and ?posted2.0 = "Inr 200"]
    last_track_transactional [OF new, where posted = "Inr 200" and read = bytesio_read]
    got failed ok new
  show ?thesis by simp
qed

text \<open>
  C5. A fetched track is submitted exactly when no last track is stored or the
  stored one differs from it in the artist or in the track; it is skipped
  exactly when it equals the stored one. Two cycles that fetch the same new
  track, the first with a successful submission, submit it once and then
  skip it.
\<close>

theorem report_iff_different:
  "(snd (observe (Some t) posted self) = Some t
      \<longleftrightarrow> last_track self = None
          \<or> (\<exists>u. last_track self = Some u \<and> (artist u \<noteq> artist t \<or> track u \<noteq> track t)))
   \<and> (snd (observe (Some t) posted self) = None \<longleftrightarrow> last_track self = Some t)
   \<and> (fetch_metadata read got1 = Some t \<and> fetch_metadata read got2 = Some t
        \<and> last_track self \<noteq> Some t \<and> submit_to_listenbrainz posted1 t
      \<longrightarrow> snd (run read [(got1, posted1), (got2, posted2)] self) = [Some t, None])"
proof -
  have a: "snd (observe (Some t) posted self) = Some t \<longleftrightarrow> last_track self \<noteq> Some t"
    by (auto simp: observe_def)
  have b: "last_track self \<noteq> Some t \<longleftrightarrow> last_track self = None
          \<or> (\<exists>u. last_track self = Some u \<and> (artist u \<noteq> artist t \<or> track u \<noteq> track t))"
    by (cases "last_track self") (auto simp: track_info_neq)
  have c: "snd (observe (Some t) posted self) = None \<longleftrightarrow> last_track self = Some t"
    by (auto simp: observe_def)
  have d: "fetch_metadata read got1 = Some t \<and> fetch_metadata read got2 = Some t
        \<and> last_track self \<noteq> Some t \<and> submit_to_listenbrainz posted1 t
      \<longrightarrow> snd (run read [(got1, posted1), (got2, posted2)] self) = [Some t, None]"
    by (auto simp: observe_def Let_def split: prod.splits)
  from a b c d show ?thesis by blast
qed

theorem report_iff_different_witness:
  "snd (observe (Some \<lparr>artist = ascii ''R'', track = ascii ''Current Track''\<rparr>) (Inr 200)
          \<lparr>last_track = None\<rparr>)
     = Some \<lparr>artist = ascii ''R'', track = ascii ''Current Track''\<rparr>
   \<and> snd (observe (Some \<lparr>artist = ascii ''R'', track = ascii ''Current Track''\<rparr>) (Inr 200)
            \<lparr>last_track = Some \<lparr>artist = ascii ''R'', track = ascii ''Current Track''\<rparr>\<rparr>) = None
   \<and> snd (observe (Some \<lparr>artist = ascii ''R'', track = ascii ''Current Track''\<rparr>) (Inr 200)
            \<lparr>last_track = Some \<lparr>artist = ascii ''R'', track = ascii ''Other''\<rparr>\<rparr>)
     = Some \<lparr>artist = ascii ''R'', track = ascii ''Current Track''\<rparr>
   \<and> fetch_metadata bytesio_read (Inr \<lparr>headers = [''icy-name'' \<mapsto> ''R''], raw = []\<rparr>)
       = Some \<lparr>artist = ascii ''R'', track = ascii ''Current Track''\<rparr>
   \<and> submit_to_listenbrainz (Inr 200) \<lparr>artist = ascii ''R'', track = ascii ''Current Track''\<rparr>
   \<and> snd (run bytesio_read [(Inr \<lparr>headers = [''icy-name'' \<mapsto> ''R''], raw = []\<rparr>, Inr 200),
               (Inr \<lparr>headers = [''icy-name'' \<mapsto> ''R''], raw = []\<rparr>, Inr 200)]
              \<lparr>last_track = None\<rparr>)
       = [Some \<lparr>artist = ascii ''R'', track = ascii ''Current Track''\<rparr>, None]"
proof -
  have got: "fetch_metadata bytesio_read (Inr \<lparr>headers = [''icy-name'' \<mapsto> ''R''], raw = []\<rparr>)
               = Some \<lparr>artist = ascii ''R'', track = ascii ''Current Track''\<rparr>"
    by (simp add: fetch_metadata_def header_fallback_def latin1_def ascii_def)
  have ok: "submit_to_listenbrainz (Inr 200) \<lparr>artist = ascii ''R'', track = ascii ''Current Track''\<rparr>"
    by (simp add: submit_to_listenbrainz_def)
  have differ: "track \<lparr>artist = ascii ''R'', track = ascii ''Other''\<rparr>
                  \<noteq> track \<lparr>artist = ascii ''R'', track = ascii ''Current Track''\<rparr>"
    by (simp add: ascii_def)
  from report_iff_different [where t = "\<lparr>artist = ascii ''R'', track = ascii ''Current Track''\<rparr>"
      and posted = "Inr 200" and self = "\<lparr>last_track = None\<rparr>" and read = bytesio_read
      and ?got1.0 = "Inr \<lparr>headers = [''icy-name'' \<mapsto> ''R''], raw = []\<rparr>"
      and ?got2.0 = "Inr \<lparr>headers = [''icy-name'' \<mapsto> ''R''], raw = []\<rparr>"
      and ?posted1.0 = "Inr 200" and ?posted2.0 = "Inr 200"]
    report_iff_different [where t = "\<lparr>artist = ascii ''R'', track = ascii ''Current Track''\<rparr>"
      and posted = "Inr 200" and read = bytesio_read
      and self = "\<lparr>last_track = Some \<lparr>artist = ascii ''R'', track = ascii ''Current Track''\<rparr>\<rparr>"]
    report_iff_different [where t = "\<lparr>artist = ascii ''R'', track = ascii ''Current Track''\<rparr>"
      and posted = "Inr 200" and read = bytesio_read
      and self = "\<lparr>last_track = Some \<lparr>artist = ascii ''R'', track = ascii ''Other''\<rparr>\<rparr>"]
    got ok differ
  show ?thesis by simp
qed

end
